theory Spec2Isabelle
  imports Complex_Main
begin

section \<open>Symbols, positions and grids\<close>

text \<open>
  The resolver under study is the class \<open>MockGameAPI\<close> of \<open>src/api/GameAPI.js\<close>.
  Symbol identifiers are the numbers 0..10 of \<open>SYMBOL_IDS\<close> (9 is the scatter, 10 the
  multiplier bomb). A position is the object \<open>{col, row}\<close>; the flood fill pushes
  neighbours with \<open>col - 1\<close> and \<open>row - 1\<close>, so both coordinates are integers and
  may be negative before the bounds check. A grid value is the array of six column
  arrays of five numbers each, read as \<open>grid[col][row]\<close>; \<open>wf_grid\<close> says that it
  has this shape. Every read below happens after a bounds check or inside the loops
  \<open>col < 6\<close>, \<open>row < 5\<close>, so on a well-formed grid no index is out of range.

  Where a field name of the source is taken in HOL it gets a prefix: \<open>csize\<close> is the
  field \<open>size\<close> of a cluster, \<open>m_col\<close>, \<open>m_row\<close>, \<open>m_value\<close> are the fields of a
  multiplier entry, \<open>n_col\<close>, \<open>n_row\<close>, \<open>n_symbolId\<close> those of a new symbol, and
  \<open>w_clusters\<close>, \<open>w_multipliers\<close> the fields \<open>clusters\<close> and \<open>multipliers\<close> of
  \<open>winData\<close>.
\<close>

type_synonym pos = "int \<times> int"

type_synonym gridval = "nat list list"

definition cell :: "gridval \<Rightarrow> pos \<Rightarrow> nat" where
  "cell g p = g ! nat (fst p) ! nat (snd p)"

definition wf_grid :: "gridval \<Rightarrow> bool" where
  "wf_grid g = (length g = 6 \<and> list_all (\<lambda>c. length c = 5) g)"

text \<open>The cells in the order of the nested loops \<open>for col < 6 { for row < 5 }\<close>.\<close>

definition allCells :: "pos list" where
  "allCells = concat (map (\<lambda>col. map (\<lambda>row. (col, row)) [0, 1, 2, 3, 4]) [0, 1, 2, 3, 4, 5])"

record cluster =
  symbolId :: nat
  positions :: "pos list"
  csize :: nat

section \<open>Flood fill and cluster detection\<close>

text \<open>
  \<open>floodFill\<close> works on a queue and marks cells in the shared \<open>visited\<close> matrix, which
  \<open>detectClusters\<close> creates as 6 x 5 \<open>false\<close>. The matrix is modelled by the set of
  positions marked \<open>true\<close>: \<open>visited[col][row]\<close> is membership and
  \<open>visited[col][row] = true\<close> is insertion; the updated set is returned with the
  positions, as the caller sees the mutation.
\<close>

function floodFill_loop ::
  "gridval \<Rightarrow> nat \<Rightarrow> pos list \<Rightarrow> pos set \<Rightarrow> pos list \<Rightarrow> pos list \<times> pos set" where
  "floodFill_loop grid targetSymbol [] visited ps = (ps, visited)"
| "floodFill_loop grid targetSymbol ((col, row) # queue) visited ps =
     (if col < 0 \<or> col \<ge> 6 \<or> row < 0 \<or> row \<ge> 5 then
        floodFill_loop grid targetSymbol queue visited ps
      else if (col, row) \<in> visited then
        floodFill_loop grid targetSymbol queue visited ps
      else if cell grid (col, row) \<noteq> targetSymbol then
        floodFill_loop grid targetSymbol queue visited ps
      else
        floodFill_loop grid targetSymbol
          (queue @ [(col + 1, row), (col - 1, row), (col, row + 1), (col, row - 1)])
          (insert (col, row) visited) (ps @ [(col, row)]))"
  by pat_completeness auto

definition board :: "pos set" where
  "board = {0..5} \<times> {0..4}"

lemma finite_board: "finite board"
  by (simp add: board_def)

lemma unmarked_less:
  assumes "p \<in> board" "p \<notin> visited"
  shows "card (board - insert p visited) < card (board - visited)"
proof -
  have "board - insert p visited \<subset> board - visited"
    using assms by auto
  then show ?thesis
    by (intro psubset_card_mono) (simp_all add: finite_board)
qed

termination floodFill_loop
proof (relation "measure (\<lambda>(grid, targetSymbol, queue, visited, ps).
          4 * card (board - visited) + length queue)", goal_cases)
  case 1
  then show ?case by simp
next
  case (2 grid targetSymbol col row queue visited ps)
  then show ?case by simp
next
  case (3 grid targetSymbol col row queue visited ps)
  then show ?case by simp
next
  case (4 grid targetSymbol col row queue visited ps)
  then show ?case by simp
next
  case (5 grid targetSymbol col row queue visited ps)
  then have "(col, row) \<in> board"
    by (simp add: board_def)
  from unmarked_less [OF this, of visited] 5 show ?case
    by simp
qed

definition floodFill :: "gridval \<Rightarrow> int \<Rightarrow> int \<Rightarrow> nat \<Rightarrow> pos set \<Rightarrow> pos list \<times> pos set" where
  "floodFill grid startCol startRow targetSymbol visited =
     floodFill_loop grid targetSymbol [(startCol, startRow)] visited []"

text \<open>
  The two nested loops of \<open>detectClusters\<close>, over the cells still to scan; \<open>continue\<close>
  is the recursive call on the rest.
\<close>

fun detectClusters_loop :: "gridval \<Rightarrow> pos list \<Rightarrow> pos set \<Rightarrow> cluster list \<Rightarrow> cluster list" where
  "detectClusters_loop grid [] visited clusters = clusters"
| "detectClusters_loop grid ((col, row) # rest) visited clusters =
     (if (col, row) \<notin> visited then
        (let symbolId = cell grid (col, row) in
         if symbolId = 9 \<or> symbolId = 10 then
           detectClusters_loop grid rest (insert (col, row) visited) clusters
         else
           (let (cl, visited') = floodFill grid col row symbolId visited in
            if length cl \<ge> 8 then
              detectClusters_loop grid rest visited'
                (clusters @ [\<lparr>symbolId = symbolId, positions = cl, csize = length cl\<rparr>])
            else detectClusters_loop grid rest visited' clusters))
      else detectClusters_loop grid rest visited clusters)"

definition detectClusters :: "gridval \<Rightarrow> cluster list" where
  "detectClusters grid = detectClusters_loop grid allCells {} []"

section \<open>The random source and the symbol draw\<close>

text \<open>
  \<open>Math.random()\<close> returns a number that is at least 0 and less than 1; the type
  \<open>unit_draw\<close> holds exactly those values. JavaScript numbers are modelled as exact
  reals: no rounding is represented. The environment is the sequence \<open>rnd\<close> of the
  values that successive calls return, and a counter \<open>k\<close> of the calls made so far is
  threaded through every function that draws. \<open>percent n\<close> is the draw
  \<open>(n mod 100) / 100\<close>, used to write concrete sequences.
\<close>

typedef unit_draw = "{r::real. 0 \<le> r \<and> r < 1}"
  by (intro exI[of _ 0]) simp

setup_lifting type_definition_unit_draw

lift_definition percent :: "nat \<Rightarrow> unit_draw" is "\<lambda>n. real (n mod 100) / 100"
  by simp

type_synonym rng = "nat \<Rightarrow> unit_draw"

definition getRandomSymbol :: "bool \<Rightarrow> unit_draw \<Rightarrow> nat" where
  "getRandomSymbol anteBet u =
     (let rand = Rep_unit_draw u * 100 in
      if rand < 5 then 0
      else if rand < 10 then 1
      else if rand < 15 then 2
      else if rand < 20 then 3
      else if rand < 25 then 4
      else if rand < 40 then 5
      else if rand < 55 then 6
      else if rand < 70 then 7
      else if rand < 85 then 8
      else if rand < (if anteBet then 95 else 92) then 9
      else 10)"

definition multiplierValues :: "real list" where
  "multiplierValues = [2, 3, 4, 5, 6, 7, 8, 9, 10, 12, 15, 20, 25, 50, 100]"

text \<open>
  \<open>multiplierValues[Math.floor(Math.random() * multiplierValues.length)]\<close>; the index is
  below 15 for every draw (\<open>drawMultiplierValue_in_range\<close>).
\<close>

definition drawMultiplierValue :: "unit_draw \<Rightarrow> real" where
  "drawMultiplierValue u =
     multiplierValues ! nat \<lfloor>Rep_unit_draw u * real (length multiplierValues)\<rfloor>"

lemma drawMultiplierValue_in_range:
  "nat \<lfloor>Rep_unit_draw u * real (length multiplierValues)\<rfloor> < length multiplierValues"
proof -
  have len: "length multiplierValues = 15"
    by (simp add: multiplierValues_def)
  have "0 \<le> Rep_unit_draw u" "Rep_unit_draw u < 1"
    using Rep_unit_draw [of u] by simp_all
  then have "nat \<lfloor>Rep_unit_draw u * 15\<rfloor> < 15"
    by (simp add: nat_less_iff floor_less_iff)
  then show ?thesis
    by (simp add: len)
qed

section \<open>The store of column arrays\<close>

text \<open>
  \<open>processTumbles\<close> writes into a grid while \<open>generateDemoOutcome\<close> keeps a reference
  to the grid it generated, so the column arrays live in a store: an address is an index
  into the list of all column arrays allocated so far, and allocation appends. A grid
  reference is the outer array, the list of the addresses of its six columns; no code
  assigns to an outer array after \<open>generateGrid\<close> has filled it, so it is held by value.
\<close>

type_synonym addr = nat

type_synonym store = "nat list list"

type_synonym gridref = "addr list"

definition readGrid :: "store \<Rightarrow> gridref \<Rightarrow> gridval" where
  "readGrid st g = map (\<lambda>a. st ! a) g"

text \<open>
  \<open>generateGrid\<close>: column by column, row by row, one draw per cell; the six new columns
  are allocated at the end of the store.
\<close>

definition generateGrid :: "bool \<Rightarrow> rng \<Rightarrow> nat \<Rightarrow> store \<Rightarrow> gridref \<times> nat \<times> store" where
  "generateGrid anteBet rnd k st =
     (let columns =
        map (\<lambda>col. map (\<lambda>row. getRandomSymbol anteBet (rnd (k + 5 * col + row)))
              [0, 1, 2, 3, 4])
          [0, 1, 2, 3, 4, 5]
      in (map (\<lambda>col. length st + col) [0, 1, 2, 3, 4, 5], k + 30, st @ columns))"

text \<open>\<open>JSON.parse(JSON.stringify(initialGrid))\<close>: fresh columns with the same numbers.\<close>

definition deepCopy :: "store \<Rightarrow> gridref \<Rightarrow> gridref \<times> store" where
  "deepCopy st g = (map (\<lambda>col. length st + col) [0..<length g], st @ map (\<lambda>a. st ! a) g)"

section \<open>Multipliers, scatters and payouts\<close>

record multiplierCell =
  m_col :: int
  m_row :: int
  m_value :: real

fun findMultipliers_loop ::
  "gridval \<Rightarrow> rng \<Rightarrow> pos list \<Rightarrow> nat \<Rightarrow> multiplierCell list \<Rightarrow> multiplierCell list \<times> nat" where
  "findMultipliers_loop grid rnd [] k multipliers = (multipliers, k)"
| "findMultipliers_loop grid rnd ((col, row) # rest) k multipliers =
     (if cell grid (col, row) = 10 then
        findMultipliers_loop grid rnd rest (k + 1)
          (multipliers @ [\<lparr>m_col = col, m_row = row, m_value = drawMultiplierValue (rnd k)\<rparr>])
      else findMultipliers_loop grid rnd rest k multipliers)"

definition findMultipliers :: "gridval \<Rightarrow> rng \<Rightarrow> nat \<Rightarrow> multiplierCell list \<times> nat" where
  "findMultipliers grid rnd k = findMultipliers_loop grid rnd allCells k []"

definition countScatters :: "gridval \<Rightarrow> nat" where
  "countScatters grid =
     foldl (\<lambda>count p. if cell grid p = 9 then count + 1 else count) 0 allCells"

text \<open>The size tiers inside \<open>calculateWin\<close>; a size below 8 keeps \<open>payout = 0\<close>.\<close>

definition payout :: "nat \<Rightarrow> real" where
  "payout sz =
     (if sz \<ge> 8 \<and> sz < 10 then 1 / 2
      else if sz \<ge> 10 \<and> sz < 12 then 1
      else if sz \<ge> 12 \<and> sz < 15 then 2
      else if sz \<ge> 15 \<and> sz < 20 then 5
      else if sz \<ge> 20 \<and> sz < 25 then 10
      else if sz \<ge> 25 then 20
      else 0)"

text \<open>\<open>calculateWin\<close> takes the bet and never reads it.\<close>

definition calculateWin :: "cluster list \<Rightarrow> real \<Rightarrow> real" where
  "calculateWin clusters betAmount =
     foldl (\<lambda>totalPayout c. totalPayout + payout (csize c)) 0 clusters"

section \<open>Tumble processing\<close>

record newSymbol =
  n_col :: int
  n_row :: int
  n_symbolId :: nat

record tumble =
  tumbleIndex :: nat
  clusters :: "cluster list"
  multipliers :: "multiplierCell list"
  winAmount :: real
  multiplier :: real
  removePositions :: "pos list"
  newSymbols :: "newSymbol list"

record params =
  betAmount :: real
  anteBet :: bool
  isFreeSpins :: bool
  accumulatedMultiplier :: real

text \<open>
  The positions to remove: every position of every cluster, in order, pushed unless
  \<open>removePositions.find\<close> already finds one with the same \<open>col\<close> and \<open>row\<close>.
\<close>

definition pushUnlessFound :: "pos list \<Rightarrow> pos \<Rightarrow> pos list" where
  "pushUnlessFound acc p =
     (if find (\<lambda>q. fst q = fst p \<and> snd q = snd p) acc = None then acc @ [p] else acc)"

definition collectRemovePositions :: "cluster list \<Rightarrow> pos list" where
  "collectRemovePositions cs =
     foldl (\<lambda>acc c. foldl pushUnlessFound acc (positions c)) [] cs"

text \<open>\<open>removePositions.map\<close>: one symbol draw per position, in order.\<close>

fun drawNewSymbols :: "bool \<Rightarrow> rng \<Rightarrow> pos list \<Rightarrow> nat \<Rightarrow> newSymbol list \<times> nat" where
  "drawNewSymbols ante rnd [] k = ([], k)"
| "drawNewSymbols ante rnd ((col, row) # rest) k =
     (let ns = \<lparr>n_col = col, n_row = row, n_symbolId = getRandomSymbol ante (rnd k)\<rparr>;
          (more, k') = drawNewSymbols ante rnd rest (k + 1)
      in (ns # more, k'))"

text \<open>
  \<open>currentGrid[ns.col][ns.row] = ns.symbolId\<close>, a write into the column's array. The
  positions written come from clusters, which lie on the board
  (\<open>detectClusters_on_board\<close>), so the write never extends an array.
\<close>

definition writeCell :: "gridref \<Rightarrow> store \<Rightarrow> newSymbol \<Rightarrow> store" where
  "writeCell g st ns =
     (let a = g ! nat (n_col ns) in st[a := (st ! a)[nat (n_row ns) := n_symbolId ns]])"

definition sumValues :: "multiplierCell list \<Rightarrow> real" where
  "sumValues ms = foldl (\<lambda>sum m. sum + m_value m) 0 ms"

text \<open>
  One pass of the loop body of \<open>processTumbles\<close> after the \<open>break\<close> test: the
  multipliers are drawn first, then the new symbols; the grid is updated in place.
\<close>

definition tumbleStep ::
  "params \<Rightarrow> rng \<Rightarrow> gridref \<Rightarrow> nat \<Rightarrow> cluster list \<Rightarrow> store \<Rightarrow> nat \<Rightarrow> tumble \<times> nat \<times> store" where
  "tumbleStep ps rnd currentGrid idx cs st k =
     (let (ms, k1) = findMultipliers (readGrid st currentGrid) rnd k;
          win = calculateWin cs (betAmount ps);
          rp = collectRemovePositions cs;
          (nss, k2) = drawNewSymbols (anteBet ps) rnd rp k1;
          st' = foldl (writeCell currentGrid) st nss
      in (\<lparr>tumbleIndex = idx, clusters = cs, multipliers = ms, winAmount = win,
            multiplier = (if length ms > 0 then sumValues ms else 1),
            removePositions = rp, newSymbols = nss\<rparr>, k2, st'))"

function processTumbles_loop ::
  "params \<Rightarrow> rng \<Rightarrow> gridref \<Rightarrow> nat \<Rightarrow> store \<Rightarrow> nat \<Rightarrow> tumble list \<Rightarrow> tumble list \<times> nat \<times> store" where
  "processTumbles_loop ps rnd currentGrid idx st k tumbles =
     (if idx < 5 then
        (let cs = detectClusters (readGrid st currentGrid) in
         if length cs = 0 then (tumbles, k, st)
         else
           (let r = tumbleStep ps rnd currentGrid idx cs st k in
            processTumbles_loop ps rnd currentGrid (idx + 1) (snd (snd r)) (fst (snd r))
              (tumbles @ [fst r])))
      else (tumbles, k, st))"
  by pat_completeness auto
termination
  by (relation "measure (\<lambda>(ps, rnd, currentGrid, idx, st, k, tumbles). 5 - idx)") auto

declare processTumbles_loop.simps [simp del]

definition processTumbles ::
  "gridref \<Rightarrow> params \<Rightarrow> rng \<Rightarrow> nat \<Rightarrow> store \<Rightarrow> tumble list \<times> nat \<times> store" where
  "processTumbles initialGrid ps rnd k st =
     (let (currentGrid, st1) = deepCopy st initialGrid
      in processTumbles_loop ps rnd currentGrid 0 st1 k [])"

section \<open>The spin outcome\<close>

record winData_t =
  w_clusters :: "cluster list"
  totalWin :: real
  w_multipliers :: "multiplierCell list"
  finalMultiplier :: real

record freeSpins_t =
  triggered :: bool
  remaining :: nat
  totalAwarded :: nat
  retriggered :: bool

record outcome =
  grid :: gridref
  tumbles :: "tumble list"
  winData :: winData_t
  freeSpins :: freeSpins_t

text \<open>
  \<open>generateDemoOutcome\<close>. The fields \<open>spinId\<close>, \<open>roundId\<close>, \<open>timestamp\<close> and
  \<open>signature\<close> of the result, and the spin counter behind them, carry no game value and
  are left out. The result comes with the draw counter and the store after the call.
\<close>

definition generateDemoOutcome :: "params \<Rightarrow> rng \<Rightarrow> nat \<Rightarrow> store \<Rightarrow> outcome \<times> nat \<times> store" where
  "generateDemoOutcome ps rnd k st =
     (let (g, k1, st1) = generateGrid (anteBet ps) rnd k st;
          (ts, k2, st2) = processTumbles g ps rnd k1 st1;
          total = foldl (\<lambda>t tu. t + winAmount tu) 0 ts;
          allClusters = concat (map clusters ts);
          allMultipliers = concat (map multipliers ts);
          applies = (isFreeSpins ps \<and> length allMultipliers > 0);
          final = (if applies then accumulatedMultiplier ps + sumValues allMultipliers else 1);
          total' = (if applies then total * final else total);
          scatterCount = countScatters (readGrid st2 g);
          freeSpinsTriggered = (scatterCount \<ge> 4)
      in (\<lparr>grid = g, tumbles = ts,
            winData = \<lparr>w_clusters = allClusters, totalWin = total' * betAmount ps,
                        w_multipliers = allMultipliers, finalMultiplier = final\<rparr>,
            freeSpins = \<lparr>triggered = freeSpinsTriggered,
                          remaining = (if freeSpinsTriggered then 10 else 0),
                          totalAwarded = (if freeSpinsTriggered then 10 else 0),
                          retriggered = False\<rparr>\<rparr>, k2, st2))"

section \<open>The caller's session state\<close>

text \<open>
  \<open>GameStateManager\<close> in \<open>src/core/GameStateManager.js\<close>, with the fields that
  \<open>requestSpin\<close> and the functions it calls read or write. The scene, the grid manager's
  sprites, the events, the animation delays and \<open>showFinalWin\<close> (an event and a delay) do
  not write these fields and are left out, and the calls into them are taken to return;
  left out as well are \<open>currentSpinData\<close>, which is written and never read, and the session
  statistics that nothing updates.
\<close>

datatype game_state =
  IDLE | SPINNING | CHECKING_WIN | SHOWING_WIN | TUMBLING | FREE_SPINS | AUTOPLAY | ERROR








datatype error = NotIdle | InsufficientBalance | ApiError















section \<open>Configuration constants\<close>

text \<open>
  From \<open>GameConfig\<close> in \<open>src/config/GameConfig.js\<close>:
  \<open>WIN_RULES.MIN_CLUSTER_SIZE\<close>, \<open>FREE_SPINS.TRIGGER_SCATTERS\<close>,
  \<open>FREE_SPINS.INITIAL_SPINS\<close> and \<open>ANTE_BET.SCATTER_CHANCE_MULTIPLIER\<close>.
  \<open>MockGameAPI\<close> does not read them: it repeats the numbers 8, 4 and 10 as literals.
\<close>

definition MIN_CLUSTER_SIZE :: nat where
  "MIN_CLUSTER_SIZE = 8"

definition TRIGGER_SCATTERS :: nat where
  "TRIGGER_SCATTERS = 4"

definition INITIAL_SPINS :: nat where
  "INITIAL_SPINS = 10"

definition SCATTER_CHANCE_MULTIPLIER :: real where
  "SCATTER_CHANCE_MULTIPLIER = 2"

section \<open>The client-side detector of \<open>GridManager\<close>\<close>

text \<open>
  \<open>GridManager\<close> (the grid manager of the scene) has a cluster detector of its own over
  the 6 x 5 array of symbol sprites; a cell is \<open>null\<close> or a sprite whose data entry
  \<open>symbolId\<close> is a number. A sprite is modelled by that number, \<open>null\<close> by \<open>None\<close>.
  \<open>this.cols\<close> and \<open>this.rows\<close> are \<open>GameConfig.GRID.COLS\<close> = 6 and
  \<open>GameConfig.GRID.ROWS\<close> = 5.
\<close>

type_synonym sprites = "nat option list list"

definition sprite :: "sprites \<Rightarrow> pos \<Rightarrow> nat option" where
  "sprite sg p = sg ! nat (fst p) ! nat (snd p)"

definition wf_sprites :: "sprites \<Rightarrow> bool" where
  "wf_sprites sg = (length sg = 6 \<and> list_all (\<lambda>c. length c = 5) sg)"

lemma mark_decreases:
  assumes "0 \<le> col" "col < 6" "0 \<le> row" "row < 5" "(col, row) \<notin> visited"
  shows "3 + 4 * card (board - insert (col, row) visited) < 4 * card (board - visited)"
proof -
  have "(col, row) \<in> board"
    using assms by (simp add: board_def)
  from unmarked_less [OF this assms(5)] show ?thesis
    by simp
qed

function GridManager_floodFill_loop ::
  "sprites \<Rightarrow> nat \<Rightarrow> pos list \<Rightarrow> pos set \<Rightarrow> pos list \<Rightarrow> pos list \<times> pos set" where
  "GridManager_floodFill_loop sg startId [] visited ps = (ps, visited)"
| "GridManager_floodFill_loop sg startId ((col, row) # queue) visited ps =
     (if col < 0 \<or> col \<ge> 6 \<or> row < 0 \<or> row \<ge> 5 then
        GridManager_floodFill_loop sg startId queue visited ps
      else if (col, row) \<in> visited then
        GridManager_floodFill_loop sg startId queue visited ps
      else
        (case sprite sg (col, row) of
           None \<Rightarrow> GridManager_floodFill_loop sg startId queue visited ps
         | Some currentId \<Rightarrow>
             if currentId \<noteq> startId then
               GridManager_floodFill_loop sg startId queue visited ps
             else if currentId = 9 \<or> currentId = 10 then
               GridManager_floodFill_loop sg startId queue visited ps
             else
               GridManager_floodFill_loop sg startId
                 (queue @ [(col + 1, row), (col - 1, row), (col, row + 1), (col, row - 1)])
                 (insert (col, row) visited) (ps @ [(col, row)])))"
  by pat_completeness auto
termination
  by (relation "measure (\<lambda>(sg, startId, queue, visited, ps).
          4 * card (board - visited) + length queue)")
     (auto intro: mark_decreases)

declare GridManager_floodFill_loop.simps [simp del]

text \<open>
  \<open>floodFill(startCol, startRow, visited)\<close> first reads the \<open>symbolId\<close> of the sprite at
  the start cell; its only caller has just tested that this sprite is not \<open>null\<close>, and
  the model passes the number read there.
\<close>

definition GridManager_floodFill :: "sprites \<Rightarrow> nat \<Rightarrow> int \<Rightarrow> int \<Rightarrow> pos set \<Rightarrow> cluster \<times> pos set" where
  "GridManager_floodFill sg startId startCol startRow visited =
     (let (ps, visited') = GridManager_floodFill_loop sg startId [(startCol, startRow)] visited []
      in (\<lparr>symbolId = startId, positions = ps, csize = length ps\<rparr>, visited'))"

fun GridManager_detectClusters_loop ::
  "sprites \<Rightarrow> pos list \<Rightarrow> pos set \<Rightarrow> cluster list \<Rightarrow> cluster list" where
  "GridManager_detectClusters_loop sg [] visited cs = cs"
| "GridManager_detectClusters_loop sg ((col, row) # rest) visited cs =
     (if (col, row) \<notin> visited then
        (case sprite sg (col, row) of
           None \<Rightarrow> GridManager_detectClusters_loop sg rest visited cs
         | Some startId \<Rightarrow>
             (let (c, visited') = GridManager_floodFill sg startId col row visited in
              if length (positions c) \<ge> MIN_CLUSTER_SIZE then
                GridManager_detectClusters_loop sg rest visited' (cs @ [c])
              else GridManager_detectClusters_loop sg rest visited' cs))
      else GridManager_detectClusters_loop sg rest visited cs)"

definition GridManager_detectClusters :: "sprites \<Rightarrow> cluster list" where
  "GridManager_detectClusters sg = GridManager_detectClusters_loop sg allCells {} []"

section \<open>Invariants and sample inputs\<close>

text \<open>What every cluster that \<open>detectClusters\<close> emits on the grid \<open>gv\<close> satisfies.\<close>

definition cluster_ok :: "gridval \<Rightarrow> cluster \<Rightarrow> bool" where
  "cluster_ok gv c = (csize c = length (positions c) \<and> 8 \<le> length (positions c)
      \<and> set (positions c) \<subseteq> board \<and> symbolId c \<noteq> 9 \<and> symbolId c \<noteq> 10
      \<and> (\<forall>p \<in> set (positions c). cell gv p = symbolId c))"

text \<open>What every recorded tumble step of a spin with parameters \<open>ps\<close> satisfies.\<close>

definition tumble_ok :: "params \<Rightarrow> tumble \<Rightarrow> bool" where
  "tumble_ok ps t = (winAmount t = calculateWin (clusters t) (betAmount ps)
      \<and> multiplier t = (if length (multipliers t) > 0 then sumValues (multipliers t) else 1)
      \<and> clusters t \<noteq> [])"

text \<open>The 6 x 5 grid whose cells all hold the symbol \<open>s\<close>.\<close>

definition uniformGrid :: "nat \<Rightarrow> gridval" where
  "uniformGrid s =
     [[s, s, s, s, s], [s, s, s, s, s], [s, s, s, s, s],
      [s, s, s, s, s], [s, s, s, s, s], [s, s, s, s, s]]"

text \<open>The order in which the flood fill started at (0, 0) reaches the cells of a uniform grid.\<close>

definition sweep30 :: "pos list" where
  "sweep30 = [(0, 0), (1, 0), (0, 1), (2, 0), (1, 1), (0, 2), (3, 0), (2, 1), (1, 2), (0, 3),
     (4, 0), (3, 1), (2, 2), (1, 3), (0, 4), (5, 0), (4, 1), (3, 2), (2, 3), (1, 4), (5, 1),
     (4, 2), (3, 3), (2, 4), (5, 2), (4, 3), (3, 4), (5, 3), (4, 4), (5, 4)]"

text \<open>
  A grid with a region of fifteen 1s, a region of twelve 2s and a region of three 3s, and
  a grid with scatters and a bomb next to a region of twenty-seven 6s.
\<close>

definition blocksGrid :: gridval where
  "blocksGrid =
     [[1, 1, 1, 1, 1], [1, 1, 1, 1, 1], [1, 1, 1, 1, 1],
      [2, 2, 2, 2, 3], [2, 2, 2, 2, 3], [2, 2, 2, 2, 3]]"

definition specialsGrid :: gridval where
  "specialsGrid =
     [[9, 10, 9, 6, 6], [6, 6, 6, 6, 6], [6, 6, 6, 6, 6],
      [6, 6, 6, 6, 6], [6, 6, 6, 6, 6], [6, 6, 6, 6, 6]]"

text \<open>
  Sample spins. In the first every draw is 0.50: every cell is a 6, on the initial grid and
  after every refill. \<open>tumbleA idx\<close> is the step such a spin records at index \<open>idx\<close>
  and \<open>storeA\<close> the store with the generated grid and its working copy.
\<close>

definition rndA :: rng where "rndA = (\<lambda>n. percent 50)"

definition tumbleA :: "nat \<Rightarrow> tumble" where
  "tumbleA idx = \<lparr>tumbleIndex = idx,
      clusters = [\<lparr>symbolId = 6, positions = sweep30, csize = 30\<rparr>],
      multipliers = [], winAmount = 20, multiplier = 1, removePositions = sweep30,
      newSymbols = map (\<lambda>p. \<lparr>n_col = fst p, n_row = snd p, n_symbolId = 6\<rparr>) sweep30\<rparr>"

definition storeA :: store where
  "storeA = uniformGrid 6 @ uniformGrid 6"

text \<open>
  In the second sample spin the first draw is 0.99 and every other draw is 0.50: cell
  (0, 0) is a bomb and the other 29 cells are 6s, again after every refill; the value
  drawn for the bomb is \<open>multiplierValues[7] = 9\<close> every time.
\<close>

definition rndB :: rng where
  "rndB = (\<lambda>n. percent (if n = 0 then 99 else 50))"

definition bombGrid :: gridval where
  "bombGrid =
     [[10, 6, 6, 6, 6], [6, 6, 6, 6, 6], [6, 6, 6, 6, 6],
      [6, 6, 6, 6, 6], [6, 6, 6, 6, 6], [6, 6, 6, 6, 6]]"

definition sweep29 :: "pos list" where
  "sweep29 = [(0, 1), (1, 1), (0, 2), (2, 1), (1, 2), (1, 0), (0, 3), (3, 1), (2, 2), (2, 0),
     (1, 3), (0, 4), (4, 1), (3, 2), (3, 0), (2, 3), (1, 4), (5, 1), (4, 2), (4, 0), (3, 3),
     (2, 4), (5, 2), (5, 0), (4, 3), (3, 4), (5, 3), (4, 4), (5, 4)]"

definition tumbleB :: "nat \<Rightarrow> tumble" where
  "tumbleB idx = \<lparr>tumbleIndex = idx,
      clusters = [\<lparr>symbolId = 6, positions = sweep29, csize = 29\<rparr>],
      multipliers = [\<lparr>m_col = 0, m_row = 0, m_value = 9\<rparr>],
      winAmount = 20, multiplier = 9, removePositions = sweep29,
      newSymbols = map (\<lambda>p. \<lparr>n_col = fst p, n_row = snd p, n_symbolId = 6\<rparr>) sweep29\<rparr>"

definition storeB :: store where
  "storeB = bombGrid @ bombGrid"

text \<open>
  In the third sample spin the first three draws are 0.90 (scatters in column 0) and the
  next 27 are 0.50: one cluster of 27 sixes. Its refill starts with a fourth scatter and
  goes on through nine pay symbols in turn, three cells each, so the tumbling stops after
  one step, on \<open>settledGrid\<close>.
\<close>

definition rndC :: rng where
  "rndC = (\<lambda>n. percent (if n < 3 then 90 else if n < 30 then 50 else if n = 30 then 90
      else [2, 7, 12, 17, 22, 30, 50, 60, 80] ! (n mod 9)))"

definition scatterGrid :: gridval where
  "scatterGrid =
     [[9, 9, 9, 6, 6], [6, 6, 6, 6, 6], [6, 6, 6, 6, 6],
      [6, 6, 6, 6, 6], [6, 6, 6, 6, 6], [6, 6, 6, 6, 6]]"

definition settledGrid :: gridval where
  "settledGrid =
     [[9, 9, 9, 9, 5], [8, 3, 8, 4, 7], [4, 7, 2, 6, 1],
      [8, 3, 6, 0, 5], [1, 7, 2, 4, 1], [2, 0, 6, 0, 5]]"

definition sweep27 :: "pos list" where
  "sweep27 = [(0, 3), (1, 3), (0, 4), (2, 3), (1, 4), (1, 2), (3, 3), (2, 4), (2, 2), (1, 1),
     (4, 3), (3, 4), (3, 2), (2, 1), (1, 0), (5, 3), (4, 4), (4, 2), (3, 1), (2, 0), (5, 4),
     (5, 2), (4, 1), (3, 0), (5, 1), (4, 0), (5, 0)]"

definition refillC :: "newSymbol list" where
  "refillC = map (\<lambda>(p, s). \<lparr>n_col = fst p, n_row = snd p, n_symbolId = s\<rparr>)
     (zip sweep27 [9, 4, 5, 6, 7, 8, 0, 1, 2, 3, 4, 5, 6, 7, 8, 0, 1, 2, 3, 4, 5, 6, 7, 8, 0, 1, 2])"

definition tumbleC :: tumble where
  "tumbleC = \<lparr>tumbleIndex = 0,
      clusters = [\<lparr>symbolId = 6, positions = sweep27, csize = 27\<rparr>],
      multipliers = [], winAmount = 20, multiplier = 1, removePositions = sweep27,
      newSymbols = refillC\<rparr>"



text \<open>
  In the fifth sample spin the draws 7, 13, 19 and 28 are 0.90 and the rest go through the
  nine pay symbols in turn: four scatters, in the columns 1, 2, 3 and 5, and no region of
  eight cells.
\<close>

definition rndE :: rng where
  "rndE = (\<lambda>n. percent (if n = 7 \<or> n = 13 \<or> n = 19 \<or> n = 28 then 90
      else [2, 7, 12, 17, 22, 30, 50, 60, 80] ! (n mod 9)))"

definition spreadGrid :: gridval where
  "spreadGrid =
     [[0, 1, 2, 3, 4], [5, 6, 9, 8, 0], [1, 2, 3, 9, 5],
      [6, 7, 8, 0, 9], [2, 3, 4, 5, 6], [7, 8, 0, 9, 2]]"










text \<open>Parameters of a base-game spin and of a free spin, both without ante.\<close>

definition baseSpin :: "real \<Rightarrow> params" where
  "baseSpin bet = \<lparr>betAmount = bet, anteBet = False, isFreeSpins = False, accumulatedMultiplier = 1\<rparr>"

definition freeSpin :: "real \<Rightarrow> real \<Rightarrow> params" where
  "freeSpin bet acc = \<lparr>betAmount = bet, anteBet = False, isFreeSpins = True, accumulatedMultiplier = acc\<rparr>"

text \<open>
  The number of the hundred draws 0.00, 0.01, ..., 0.99 on which \<open>getRandomSymbol\<close>
  returns the scatter.
\<close>

definition scatterDraws :: "bool \<Rightarrow> nat" where
  "scatterDraws ante = length (filter (\<lambda>n. getRandomSymbol ante (percent n) = 9) [0..<100])"

text \<open>
  A sprite grid with scatters and a bomb in column 0, an empty cell at (2, 1) and 6s
  elsewhere.
\<close>

definition specialSprites :: sprites where
  "specialSprites =
     [[Some 9, Some 10, Some 9, Some 6, Some 6], [Some 6, Some 6, Some 6, Some 6, Some 6],
      [Some 6, None, Some 6, Some 6, Some 6], [Some 6, Some 6, Some 6, Some 6, Some 6],
      [Some 6, Some 6, Some 6, Some 6, Some 6], [Some 6, Some 6, Some 6, Some 6, Some 6]]"


section \<open>The flood fill marks what it collects\<close>

lemma floodFill_loop_effect:
  "floodFill_loop gv t queue visited ps = (ps', visited') \<Longrightarrow>
   \<exists>new. ps' = ps @ new \<and> distinct new \<and> set new \<inter> visited = {} \<and> visited' = visited \<union> set new
      \<and> set new \<subseteq> board \<and> (\<forall>p \<in> set new. cell gv p = t)"
proof (induction gv t queue visited ps rule: floodFill_loop.induct)
  case (1 gv targetSymbol visited ps)
  then show ?case by simp
next
  case (2 gv targetSymbol col row queue visited ps)
  show ?case
  proof (cases "col < 0 \<or> col \<ge> 6 \<or> row < 0 \<or> row \<ge> 5 \<or> (col, row) \<in> visited \<or> cell gv (col, row) \<noteq> targetSymbol")
    case True
    then show ?thesis using 2 by (auto split: if_splits)
  next
    case False
    then have run: "floodFill_loop gv targetSymbol
          (queue @ [(col + 1, row), (col - 1, row), (col, row + 1), (col, row - 1)])
          (insert (col, row) visited) (ps @ [(col, row)]) = (ps', visited')"
      using "2.prems" by simp
    from False "2.IH"(4)[OF _ _ _ run] obtain new where
      new: "ps' = (ps @ [(col, row)]) @ new" "distinct new" "set new \<inter> insert (col, row) visited = {}"
        "visited' = insert (col, row) visited \<union> set new" "set new \<subseteq> board" "\<forall>p \<in> set new. cell gv p = targetSymbol"
      by auto
    have inb: "(col, row) \<in> board" using False by (auto simp: board_def)
    show ?thesis
      apply (rule exI[of _ "(col, row) # new"])
      using new False inb by auto
  qed
qed

lemma floodFill_effect:
  assumes "floodFill gv c r t visited = (cl, visited')"
  shows "distinct cl \<and> set cl \<inter> visited = {} \<and> visited' = visited \<union> set cl
      \<and> set cl \<subseteq> board \<and> (\<forall>p \<in> set cl. cell gv p = t)"
  using floodFill_loop_effect [OF assms [unfolded floodFill_def]] by auto

lemma detectClusters_loop_inv:
  "list_all (cluster_ok gv) cs \<Longrightarrow> distinct (concat (map positions cs)) \<Longrightarrow>
   set (concat (map positions cs)) \<subseteq> visited \<Longrightarrow>
   list_all (cluster_ok gv) (detectClusters_loop gv rest visited cs)
   \<and> distinct (concat (map positions (detectClusters_loop gv rest visited cs)))"
proof (induction rest arbitrary: visited cs)
  case Nil
  then show ?case by simp
next
  case (Cons p rest)
  obtain col row where p: "p = (col, row)" by (cases p)
  show ?case
  proof (cases "(col, row) \<in> visited")
    case True
    then show ?thesis using Cons p by simp
  next
    case unv: False
    show ?thesis
    proof (cases "cell gv (col, row) = 9 \<or> cell gv (col, row) = 10")
      case True
      have "set (concat (map positions cs)) \<subseteq> insert (col, row) visited"
        using Cons.prems(3) by auto
      from Cons.IH [OF Cons.prems(1,2) this] show ?thesis
        using True unv p by simp
    next
      case pay: False
      obtain cl visited' where ff: "floodFill gv col row (cell gv (col, row)) visited = (cl, visited')"
        by (cases "floodFill gv col row (cell gv (col, row)) visited")
      note eff = floodFill_effect [OF ff]
      have sub: "set (concat (map positions cs)) \<subseteq> visited'"
        using Cons.prems(3) eff by auto
      show ?thesis
      proof (cases "8 \<le> length cl")
        case True
        let ?c = "\<lparr>symbolId = cell gv (col, row), positions = cl, csize = length cl\<rparr>"
        have "cluster_ok gv ?c"
          using eff True pay by (simp add: cluster_ok_def)
        then have ok: "list_all (cluster_ok gv) (cs @ [?c])"
          using Cons.prems(1) by simp
        have dis: "distinct (concat (map positions (cs @ [?c])))"
          using Cons.prems(2,3) eff by auto
        have sub': "set (concat (map positions (cs @ [?c]))) \<subseteq> visited'"
          using sub eff by auto
        from Cons.IH [OF ok dis sub'] show ?thesis
          using True unv pay p ff by simp
      next
        case False
        from Cons.IH [OF Cons.prems(1,2) sub] show ?thesis
          using False unv pay p ff by simp
      qed
    qed
  qed
qed

lemma detectClusters_ok:
  "list_all (cluster_ok gv) (detectClusters gv) \<and> distinct (concat (map positions (detectClusters gv)))"
  unfolding detectClusters_def by (rule detectClusters_loop_inv) simp_all

lemma distinct_concat_disjoint:
  "distinct (concat xss) \<Longrightarrow> i < j \<Longrightarrow> j < length xss \<Longrightarrow> set (xss ! i) \<inter> set (xss ! j) = {}"
proof (induction xss arbitrary: i j)
  case Nil
  then show ?case by simp
next
  case (Cons xs xss)
  show ?case
  proof (cases i)
    case 0
    then obtain j' where j: "j = Suc j'" using Cons.prems(2) by (cases j) auto
    then have "xss ! j' \<in> set xss" using Cons.prems(3) by simp
    then show ?thesis using Cons.prems(1) 0 j by auto
  next
    case (Suc i')
    then obtain j' where j: "j = Suc j'" using Cons.prems(2) by (cases j) auto
    from Cons.IH [of i' j'] Cons.prems Suc j show ?thesis by simp
  qed
qed

lemma detectClusters_uniform:
  "s \<noteq> 9 \<Longrightarrow> s \<noteq> 10 \<Longrightarrow>
     detectClusters (uniformGrid s) = [\<lparr>symbolId = s, positions = sweep30, csize = 30\<rparr>]"
  by (simp add: uniformGrid_def detectClusters_def allCells_def floodFill_def cell_def sweep30_def)

lemma length_sweep30: "length sweep30 = 30"
  by (simp add: sweep30_def)

lemma set_sweep30: "set sweep30 = set allCells"
proof (rule equalityI)
  show "set sweep30 \<subseteq> set allCells"
    by (simp add: sweep30_def allCells_def)
  show "set allCells \<subseteq> set sweep30"
    by (simp add: sweep30_def allCells_def)
qed

section \<open>The tumble loop writes only into its copy\<close>

lemma pushUnlessFound_subset: "set (pushUnlessFound acc p) \<subseteq> insert p (set acc)"
  by (auto simp: pushUnlessFound_def)

lemma collect_inner_subset:
  "set (foldl pushUnlessFound acc ps) \<subseteq> set acc \<union> set ps"
proof (induction ps arbitrary: acc)
  case Nil
  then show ?case by simp
next
  case (Cons p ps)
  from Cons.IH [of "pushUnlessFound acc p"] pushUnlessFound_subset [of acc p]
  show ?case by auto
qed

lemma collect_outer_subset:
  "set (foldl (\<lambda>acc c. foldl pushUnlessFound acc (positions c)) acc cs)
     \<subseteq> set acc \<union> set (concat (map positions cs))"
proof (induction cs arbitrary: acc)
  case Nil
  then show ?case by simp
next
  case (Cons c cs)
  from Cons.IH [of "foldl pushUnlessFound acc (positions c)"] collect_inner_subset [of acc "positions c"]
  show ?case by auto
qed

lemma collectRemovePositions_subset:
  "set (collectRemovePositions cs) \<subseteq> set (concat (map positions cs))"
  unfolding collectRemovePositions_def using collect_outer_subset [of "[]" cs] by simp

lemma drawNewSymbols_positions:
  "drawNewSymbols ante rnd ps k = (nss, k') \<Longrightarrow>
     map (\<lambda>ns. (n_col ns, n_row ns)) nss = ps \<and> k' = k + length ps"
proof (induction ps arbitrary: k nss k')
  case Nil
  then show ?case by simp
next
  case (Cons p ps)
  obtain col row where p: "p = (col, row)" by (cases p)
  obtain more k2 where rest: "drawNewSymbols ante rnd ps (k + 1) = (more, k2)"
    by (cases "drawNewSymbols ante rnd ps (k + 1)")
  from Cons.IH [OF rest] Cons.prems p rest show ?case
    by (auto simp: Let_def)
qed

lemma writeCell_frame:
  assumes "\<forall>i<6. n \<le> cur ! i" "(n_col ns, n_row ns) \<in> board"
  shows "length (writeCell cur s ns) = length s \<and> (\<forall>a<n. writeCell cur s ns ! a = s ! a)"
proof -
  have "nat (n_col ns) < 6" using assms(2) by (auto simp: board_def)
  then have "n \<le> cur ! nat (n_col ns)" using assms(1) by blast
  then show ?thesis by (simp add: writeCell_def Let_def)
qed

lemma writeCells_frame:
  assumes "\<forall>i<6. n \<le> cur ! i"
  shows "\<forall>ns \<in> set nss. (n_col ns, n_row ns) \<in> board \<Longrightarrow>
     length (foldl (writeCell cur) s nss) = length s \<and> (\<forall>a<n. foldl (writeCell cur) s nss ! a = s ! a)"
proof (induction nss arbitrary: s)
  case Nil
  then show ?case by simp
next
  case (Cons ns nss)
  from writeCell_frame [OF assms, of ns s] Cons.prems Cons.IH [of "writeCell cur s ns"]
  show ?case by simp
qed

lemma tumbleStep_frame:
  assumes cur: "\<forall>i<6. n \<le> cur ! i"
      and cs: "set (concat (map positions cs)) \<subseteq> board"
      and step: "tumbleStep ps rnd cur idx cs s k = (t, k', s')"
  shows "length s' = length s \<and> (\<forall>a<n. s' ! a = s ! a)"
proof -
  obtain ms k1 where fm: "findMultipliers (readGrid s cur) rnd k = (ms, k1)"
    by (cases "findMultipliers (readGrid s cur) rnd k")
  obtain nss k2 where dn: "drawNewSymbols (anteBet ps) rnd (collectRemovePositions cs) k1 = (nss, k2)"
    by (cases "drawNewSymbols (anteBet ps) rnd (collectRemovePositions cs) k1")
  have s': "s' = foldl (writeCell cur) s nss"
    using step fm dn by (simp add: tumbleStep_def Let_def)
  have "map (\<lambda>ns. (n_col ns, n_row ns)) nss = collectRemovePositions cs"
    using drawNewSymbols_positions [OF dn] by simp
  then have "\<forall>ns \<in> set nss. (n_col ns, n_row ns) \<in> set (collectRemovePositions cs)"
    by (metis (mono_tags, lifting) image_eqI list.set_map)
  then have "\<forall>ns \<in> set nss. (n_col ns, n_row ns) \<in> board"
    using collectRemovePositions_subset [of cs] cs by blast
  from writeCells_frame [OF cur this] s' show ?thesis by simp
qed

lemma detectClusters_on_board:
  "set (concat (map positions (detectClusters gv))) \<subseteq> board"
proof -
  have "list_all (cluster_ok gv) (detectClusters gv)"
    using detectClusters_ok by blast
  then show ?thesis
    by (auto simp: list_all_iff cluster_ok_def)
qed

lemma processTumbles_loop_frame:
  "\<forall>i<6. n \<le> cur ! i \<Longrightarrow> processTumbles_loop ps rnd cur idx s k ts = (ts', k', s') \<Longrightarrow>
     length s' = length s \<and> (\<forall>a<n. s' ! a = s ! a)"
proof (induction ps rnd cur idx s k ts rule: processTumbles_loop.induct)
  case (1 ps rnd currentGrid idx st k tumbles)
  show ?case
  proof (cases "idx < 5 \<and> length (detectClusters (readGrid st currentGrid)) \<noteq> 0")
    case False
    then show ?thesis using "1.prems"(2)
      by (subst (asm) processTumbles_loop.simps) (auto simp: Let_def split: if_splits)
  next
    case True
    let ?cs = "detectClusters (readGrid st currentGrid)"
    obtain t k1 s1 where step: "tumbleStep ps rnd currentGrid idx ?cs st k = (t, k1, s1)"
      by (cases "tumbleStep ps rnd currentGrid idx ?cs st k")
    have run: "processTumbles_loop ps rnd currentGrid (idx + 1) s1 k1 (tumbles @ [t]) = (ts', k', s')"
      using "1.prems"(2) True step
      by (subst (asm) processTumbles_loop.simps) (simp add: Let_def)
    from True have a: "idx < 5" and b: "length ?cs \<noteq> 0" by auto
    let ?r = "tumbleStep ps rnd currentGrid idx ?cs st k"
    have run': "processTumbles_loop ps rnd currentGrid (idx + 1) (snd (snd ?r)) (fst (snd ?r))
        (tumbles @ [fst ?r]) = (ts', k', s')"
      using run step by simp
    have ih: "length s' = length s1 \<and> (\<forall>a<n. s' ! a = s1 ! a)"
      using "1.IH" [OF a refl b refl "1.prems"(1) run'] step by simp
    from tumbleStep_frame [OF "1.prems"(1) detectClusters_on_board step] ih
    show ?thesis by simp
  qed
qed

lemma generateGrid_shape:
  assumes "generateGrid ante rnd k st = (g, k1, st1)"
  shows "length g = 6 \<and> (\<forall>a \<in> set g. a < length st1) \<and> k1 = k + 30 \<and> wf_grid (readGrid st1 g)"
proof -
  have g: "g = map (\<lambda>col. length st + col) [0, 1, 2, 3, 4, 5]" and k1: "k1 = k + 30"
    using assms by (auto simp: generateGrid_def Let_def)
  have st1: "st1 = st @ map (\<lambda>col. map (\<lambda>row. getRandomSymbol ante (rnd (k + 5 * col + row)))
              [0, 1, 2, 3, 4]) [0, 1, 2, 3, 4, 5]"
    using assms by (auto simp: generateGrid_def Let_def)
  have "wf_grid (readGrid st1 g)"
    unfolding g st1 by (simp add: wf_grid_def readGrid_def nth_append)
  then show ?thesis using g k1 st1 by auto
qed

lemma processTumbles_frame:
  assumes len: "length g = 6" and run: "processTumbles g ps rnd k st = (ts, k', st')"
  shows "\<forall>a < length st. st' ! a = st ! a"
proof -
  let ?cur = "map (\<lambda>col. length st + col) [0..<length g]"
  let ?st1 = "st @ map (\<lambda>a. st ! a) g"
  have loop: "processTumbles_loop ps rnd ?cur 0 ?st1 k [] = (ts, k', st')"
    using run by (simp add: processTumbles_def deepCopy_def)
  have "\<forall>i<6. length st \<le> ?cur ! i"
    using len by simp
  from processTumbles_loop_frame [OF this loop]
  show ?thesis by (simp add: nth_append)
qed

lemma readGrid_frame:
  assumes "\<forall>a \<in> set g. a < n" "\<forall>a < n. st' ! a = st ! a"
  shows "readGrid st' g = readGrid st g"
  using assms by (simp add: readGrid_def)

lemma generateDemoOutcome_unfold:
  assumes gen: "generateGrid (anteBet ps) rnd k st = (g, k1, st1)"
      and pt: "processTumbles g ps rnd k1 st1 = (ts, k2, st2)"
  shows "generateDemoOutcome ps rnd k st =
     (let total = foldl (\<lambda>t tu. t + winAmount tu) 0 ts;
          allClusters = concat (map clusters ts);
          allMultipliers = concat (map multipliers ts);
          applies = (isFreeSpins ps \<and> length allMultipliers > 0);
          final = (if applies then accumulatedMultiplier ps + sumValues allMultipliers else 1);
          total' = (if applies then total * final else total);
          scatterCount = countScatters (readGrid st2 g);
          freeSpinsTriggered = (scatterCount \<ge> 4)
      in (\<lparr>grid = g, tumbles = ts,
            winData = \<lparr>w_clusters = allClusters, totalWin = total' * betAmount ps,
                        w_multipliers = allMultipliers, finalMultiplier = final\<rparr>,
            freeSpins = \<lparr>triggered = freeSpinsTriggered,
                          remaining = (if freeSpinsTriggered then 10 else 0),
                          totalAwarded = (if freeSpinsTriggered then 10 else 0),
                          retriggered = False\<rparr>\<rparr>, k2, st2))"
  using gen pt by (simp add: generateDemoOutcome_def)

lemma tumbleStep_ok:
  "tumbleStep ps rnd cur idx cs s k = (t, k', s') \<Longrightarrow> cs \<noteq> [] \<Longrightarrow> tumble_ok ps t \<and> tumbleIndex t = idx"
  by (auto simp: tumbleStep_def tumble_ok_def Let_def split: prod.splits)

lemma processTumbles_loop_tumbles:
  "processTumbles_loop ps rnd cur idx s k ts = (ts', k', s') \<Longrightarrow>
     \<exists>new. ts' = ts @ new \<and> length new \<le> 5 - idx \<and> (\<forall>t \<in> set new. tumble_ok ps t)"
proof (induction ps rnd cur idx s k ts rule: processTumbles_loop.induct)
  case (1 ps rnd currentGrid idx st k tumbles)
  show ?case
  proof (cases "idx < 5 \<and> length (detectClusters (readGrid st currentGrid)) \<noteq> 0")
    case False
    then have "ts' = tumbles" using "1.prems"
      by (subst (asm) processTumbles_loop.simps) (auto simp: Let_def split: if_splits)
    then show ?thesis by simp
  next
    case True
    let ?cs = "detectClusters (readGrid st currentGrid)"
    let ?r = "tumbleStep ps rnd currentGrid idx ?cs st k"
    from True have a: "idx < 5" and b: "length ?cs \<noteq> 0" by auto
    have run: "processTumbles_loop ps rnd currentGrid (idx + 1) (snd (snd ?r)) (fst (snd ?r))
        (tumbles @ [fst ?r]) = (ts', k', s')"
      using "1.prems" True
      by (subst (asm) processTumbles_loop.simps) (simp add: Let_def)
    from "1.IH" [OF a refl b refl run] obtain new where
      new: "ts' = (tumbles @ [fst ?r]) @ new" "length new \<le> 5 - (idx + 1)" "\<forall>t \<in> set new. tumble_ok ps t"
      by blast
    have "tumble_ok ps (fst ?r)"
      using tumbleStep_ok [of ps rnd currentGrid idx ?cs st k "fst ?r" "fst (snd ?r)" "snd (snd ?r)"] b
      by simp
    then show ?thesis
      using new a by (intro exI [of _ "fst ?r # new"]) auto
  qed
qed

lemma processTumbles_tumbles:
  assumes "processTumbles g ps rnd k st = (ts, k', st')"
  shows "length ts \<le> 5 \<and> (\<forall>t \<in> set ts. tumble_ok ps t)"
proof -
  obtain cur st1 where dc: "deepCopy st g = (cur, st1)" by (cases "deepCopy st g")
  then have "processTumbles_loop ps rnd cur 0 st1 k [] = (ts, k', st')"
    using assms by (simp add: processTumbles_def)
  from processTumbles_loop_tumbles [OF this] show ?thesis by auto
qed

lemma foldl_add_sum_list: "foldl (\<lambda>t x. t + f x) (a::real) xs = a + sum_list (map f xs)"
  by (induction xs arbitrary: a) simp_all

lemma processTumbles_loop_indices:
  "processTumbles_loop ps rnd cur idx s k ts = (ts', k', s') \<Longrightarrow>
     \<exists>new. ts' = ts @ new \<and> map tumbleIndex new = [idx..<idx + length new]"
proof (induction ps rnd cur idx s k ts rule: processTumbles_loop.induct)
  case (1 ps rnd currentGrid idx st k tumbles)
  show ?case
  proof (cases "idx < 5 \<and> length (detectClusters (readGrid st currentGrid)) \<noteq> 0")
    case False
    then have "ts' = tumbles" using "1.prems"
      by (subst (asm) processTumbles_loop.simps) (auto simp: Let_def split: if_splits)
    then show ?thesis by simp
  next
    case True
    let ?cs = "detectClusters (readGrid st currentGrid)"
    let ?r = "tumbleStep ps rnd currentGrid idx ?cs st k"
    from True have a: "idx < 5" and b: "length ?cs \<noteq> 0" by auto
    have run: "processTumbles_loop ps rnd currentGrid (idx + 1) (snd (snd ?r)) (fst (snd ?r))
        (tumbles @ [fst ?r]) = (ts', k', s')"
      using "1.prems" True
      by (subst (asm) processTumbles_loop.simps) (simp add: Let_def)
    from "1.IH" [OF a refl b refl run] obtain new where
      new: "ts' = (tumbles @ [fst ?r]) @ new" "map tumbleIndex new = [idx + 1..<idx + 1 + length new]"
      by blast
    have "tumbleIndex (fst ?r) = idx"
      using tumbleStep_ok [of ps rnd currentGrid idx ?cs st k "fst ?r" "fst (snd ?r)" "snd (snd ?r)"] b
      by simp
    moreover have "[idx..<idx + length (fst ?r # new)] = idx # [idx + 1..<idx + 1 + length new]"
      by (subst upt_rec) simp
    ultimately have "map tumbleIndex (fst ?r # new) = [idx..<idx + length (fst ?r # new)]"
      using new(2) by (simp only: list.map)
    then show ?thesis
      using new(1) by (intro exI [of _ "fst ?r # new"]) simp
  qed
qed

lemma processTumbles_indices:
  assumes "processTumbles g ps rnd k st = (ts, k', st')"
  shows "map tumbleIndex ts = [0..<length ts]"
proof -
  obtain cur st1 where dc: "deepCopy st g = (cur, st1)" by (cases "deepCopy st g")
  then have "processTumbles_loop ps rnd cur 0 st1 k [] = (ts, k', st')"
    using assms by (simp add: processTumbles_def)
  from processTumbles_loop_indices [OF this] show ?thesis by auto
qed

section \<open>The scatter count reads every cell\<close>

lemma distinct_allCells: "distinct allCells"
  by (simp add: allCells_def)

lemma set_allCells: "set allCells = board"
proof -
  have "{0..5::int} = {0, 1, 2, 3, 4, 5}" "{0..4::int} = {0, 1, 2, 3, 4}"
    by auto
  then show ?thesis
    unfolding board_def allCells_def by auto
qed

lemma count_foldl:
  "foldl (\<lambda>count p. if P p then count + 1 else count) (n::nat) xs = n + length (filter P xs)"
  by (induction xs arbitrary: n) simp_all

lemma countScatters_cells: "countScatters gv = card {p \<in> board. cell gv p = 9}"
proof -
  have "countScatters gv = length (filter (\<lambda>p. cell gv p = 9) allCells)"
    by (simp add: countScatters_def count_foldl)
  also have "\<dots> = card (set (filter (\<lambda>p. cell gv p = 9) allCells))"
    using distinct_allCells by (simp add: distinct_card del: set_filter)
  also have "set (filter (\<lambda>p. cell gv p = 9) allCells) = {p \<in> board. cell gv p = 9}"
    using set_allCells by auto
  finally show ?thesis .
qed


section \<open>Evaluation of the sample spins\<close>

lemma list_update_Cons_numeral:
  "(x # xs)[numeral v := y] = x # xs[numeral v - 1 := y]"
  by (simp add: numeral_eq_Suc)

lemma generateGrid_A: "generateGrid False rndA 0 [] = ([0, 1, 2, 3, 4, 5], 30, uniformGrid 6)"
  by (simp add: generateGrid_def getRandomSymbol_def rndA_def percent.rep_eq uniformGrid_def)

lemma drawNewSymbols_A:
  "drawNewSymbols False rndA ps k = (map (\<lambda>p. \<lparr>n_col = fst p, n_row = snd p, n_symbolId = 6\<rparr>) ps, k + length ps)"
  by (induction ps arbitrary: k) (auto simp: getRandomSymbol_def rndA_def percent.rep_eq)

lemma findMultipliers_uniform: "findMultipliers (uniformGrid 6) rnd k = ([], k)"
  by (simp add: findMultipliers_def allCells_def uniformGrid_def cell_def)

lemma collect_sweep30:
  "collectRemovePositions [\<lparr>symbolId = s, positions = sweep30, csize = 30\<rparr>] = sweep30"
  by (simp add: collectRemovePositions_def pushUnlessFound_def sweep30_def)

lemma readGrid_A: "readGrid storeA [6, 7, 8, 9, 10, 11] = uniformGrid 6"
  by (simp add: readGrid_def storeA_def uniformGrid_def)

lemma write_A:
  "foldl (writeCell [6, 7, 8, 9, 10, 11]) storeA (map (\<lambda>p. \<lparr>n_col = fst p, n_row = snd p, n_symbolId = 6\<rparr>) sweep30) = storeA"
  by (simp add: writeCell_def storeA_def uniformGrid_def sweep30_def list_update_Cons_numeral)

lemma tumbleStep_A:
  assumes "anteBet ps = False"
  shows "tumbleStep ps rndA [6, 7, 8, 9, 10, 11] idx [\<lparr>symbolId = 6, positions = sweep30, csize = 30\<rparr>] storeA k
     = (tumbleA idx, k + 30, storeA)"
  unfolding tumbleStep_def readGrid_A findMultipliers_uniform collect_sweep30 assms drawNewSymbols_A
  by (simp add: write_A tumbleA_def calculateWin_def payout_def length_sweep30)

lemma loop_end:
  "\<not> idx < 5 \<Longrightarrow> processTumbles_loop ps rnd cur idx st k ts = (ts, k, st)"
  by (subst processTumbles_loop.simps) simp

lemma loop_step_A:
  assumes "anteBet ps = False" "idx < 5" "idx' = idx + 1" "k' = k + 30" "ts' = ts @ [tumbleA idx]"
  shows "processTumbles_loop ps rndA [6, 7, 8, 9, 10, 11] idx storeA k ts
     = processTumbles_loop ps rndA [6, 7, 8, 9, 10, 11] idx' storeA k' ts'"
  by (subst processTumbles_loop.simps)
     (simp add: readGrid_A detectClusters_uniform tumbleStep_A assms)

lemma loop_A:
  assumes "anteBet ps = False"
  shows "processTumbles_loop ps rndA [6, 7, 8, 9, 10, 11] 0 storeA k []
     = ([tumbleA 0, tumbleA 1, tumbleA 2, tumbleA 3, tumbleA 4], k + 150, storeA)"
proof -
  note step = loop_step_A [OF assms]
  have s0: "processTumbles_loop ps rndA [6, 7, 8, 9, 10, 11] 0 storeA k []
      = processTumbles_loop ps rndA [6, 7, 8, 9, 10, 11] 1 storeA (k + 30)
          [tumbleA 0]"
    by (rule step) simp_all
  have s1: "processTumbles_loop ps rndA [6, 7, 8, 9, 10, 11] 1 storeA (k + 30) [tumbleA 0]
      = processTumbles_loop ps rndA [6, 7, 8, 9, 10, 11] 2 storeA (k + 60)
          [tumbleA 0, tumbleA 1]"
    by (rule step) simp_all
  have s2: "processTumbles_loop ps rndA [6, 7, 8, 9, 10, 11] 2 storeA (k + 60) [tumbleA 0, tumbleA 1]
      = processTumbles_loop ps rndA [6, 7, 8, 9, 10, 11] 3 storeA (k + 90)
          [tumbleA 0, tumbleA 1, tumbleA 2]"
    by (rule step) simp_all
  have s3: "processTumbles_loop ps rndA [6, 7, 8, 9, 10, 11] 3 storeA (k + 90) [tumbleA 0, tumbleA 1, tumbleA 2]
      = processTumbles_loop ps rndA [6, 7, 8, 9, 10, 11] 4 storeA (k + 120)
          [tumbleA 0, tumbleA 1, tumbleA 2, tumbleA 3]"
    by (rule step) simp_all
  have s4: "processTumbles_loop ps rndA [6, 7, 8, 9, 10, 11] 4 storeA (k + 120) [tumbleA 0, tumbleA 1, tumbleA 2, tumbleA 3]
      = processTumbles_loop ps rndA [6, 7, 8, 9, 10, 11] 5 storeA (k + 150)
          [tumbleA 0, tumbleA 1, tumbleA 2, tumbleA 3, tumbleA 4]"
    by (rule step) simp_all
  have s5: "processTumbles_loop ps rndA [6, 7, 8, 9, 10, 11] 5 storeA (k + 150)
          [tumbleA 0, tumbleA 1, tumbleA 2, tumbleA 3, tumbleA 4]
      = ([tumbleA 0, tumbleA 1, tumbleA 2, tumbleA 3, tumbleA 4], k + 150, storeA)"
    by (rule loop_end) simp
  show ?thesis
    by (simp only: s0 s1 s2 s3 s4 s5)
qed

lemma processTumbles_A:
  assumes "anteBet ps = False"
  shows "processTumbles [0, 1, 2, 3, 4, 5] ps rndA 30 (uniformGrid 6)
     = ([tumbleA 0, tumbleA 1, tumbleA 2, tumbleA 3, tumbleA 4], 180, storeA)"
proof -
  have "deepCopy (uniformGrid 6) [0, 1, 2, 3, 4, 5] = ([6, 7, 8, 9, 10, 11], storeA)"
    by (simp add: deepCopy_def storeA_def uniformGrid_def)
  then show ?thesis
    by (simp add: processTumbles_def loop_A [OF assms])
qed

lemma generateGrid_B: "generateGrid False rndB 0 [] = ([0, 1, 2, 3, 4, 5], 30, bombGrid)"
  by (simp add: generateGrid_def getRandomSymbol_def rndB_def percent.rep_eq bombGrid_def)

lemma detectClusters_bombGrid:
  "detectClusters bombGrid = [\<lparr>symbolId = 6, positions = sweep29, csize = 29\<rparr>]"
  by (simp add: bombGrid_def detectClusters_def allCells_def floodFill_def cell_def sweep29_def)

lemma length_sweep29: "length sweep29 = 29"
  by (simp add: sweep29_def)

lemma drawNewSymbols_B:
  "0 < k \<Longrightarrow> drawNewSymbols False rndB ps k
     = (map (\<lambda>p. \<lparr>n_col = fst p, n_row = snd p, n_symbolId = 6\<rparr>) ps, k + length ps)"
  by (induction ps arbitrary: k) (auto simp: getRandomSymbol_def rndB_def percent.rep_eq)

lemma findMultipliers_bombGrid:
  "0 < k \<Longrightarrow> findMultipliers bombGrid rndB k = ([\<lparr>m_col = 0, m_row = 0, m_value = 9\<rparr>], k + 1)"
  by (simp add: findMultipliers_def allCells_def bombGrid_def cell_def rndB_def
      drawMultiplierValue_def multiplierValues_def percent.rep_eq)

lemma collect_sweep29:
  "collectRemovePositions [\<lparr>symbolId = s, positions = sweep29, csize = 29\<rparr>] = sweep29"
  by (simp add: collectRemovePositions_def pushUnlessFound_def sweep29_def)

lemma readGrid_B: "readGrid storeB [6, 7, 8, 9, 10, 11] = bombGrid"
  by (simp add: readGrid_def storeB_def bombGrid_def)

lemma write_B:
  "foldl (writeCell [6, 7, 8, 9, 10, 11]) storeB
     (map (\<lambda>p. \<lparr>n_col = fst p, n_row = snd p, n_symbolId = 6\<rparr>) sweep29) = storeB"
  by (simp add: writeCell_def storeB_def bombGrid_def sweep29_def list_update_Cons_numeral)

lemma tumbleStep_B:
  assumes "anteBet ps = False" "0 < k"
  shows "tumbleStep ps rndB [6, 7, 8, 9, 10, 11] idx
       [\<lparr>symbolId = 6, positions = sweep29, csize = 29\<rparr>] storeB k
     = (tumbleB idx, k + 30, storeB)"
proof -
  have fm: "findMultipliers bombGrid rndB k = ([\<lparr>m_col = 0, m_row = 0, m_value = 9\<rparr>], k + 1)"
    using assms(2) by (rule findMultipliers_bombGrid)
  have dn: "drawNewSymbols False rndB sweep29 (Suc k)
     = (map (\<lambda>p. \<lparr>n_col = fst p, n_row = snd p, n_symbolId = 6\<rparr>) sweep29, Suc k + length sweep29)"
    by (rule drawNewSymbols_B) simp
  show ?thesis
    unfolding tumbleStep_def readGrid_B fm collect_sweep29 assms(1)
    by (simp add: dn write_B tumbleB_def calculateWin_def payout_def length_sweep29 sumValues_def)
qed

lemma loop_step_B:
  assumes "anteBet ps = False" "0 < k" "idx < 5" "idx' = idx + 1" "k' = k + 30" "ts' = ts @ [tumbleB idx]"
  shows "processTumbles_loop ps rndB [6, 7, 8, 9, 10, 11] idx storeB k ts
     = processTumbles_loop ps rndB [6, 7, 8, 9, 10, 11] idx' storeB k' ts'"
  by (subst processTumbles_loop.simps)
     (simp add: readGrid_B detectClusters_bombGrid tumbleStep_B assms)

lemma loop_B:
  assumes "anteBet ps = False" "0 < k"
  shows "processTumbles_loop ps rndB [6, 7, 8, 9, 10, 11] 0 storeB k []
     = ([tumbleB 0, tumbleB 1, tumbleB 2, tumbleB 3, tumbleB 4], k + 150, storeB)"
proof -
  have step: "\<And>idx idx' j j' ts ts'. 0 < j \<Longrightarrow> idx < 5 \<Longrightarrow> idx' = idx + 1 \<Longrightarrow> j' = j + 30
      \<Longrightarrow> ts' = ts @ [tumbleB idx]
      \<Longrightarrow> processTumbles_loop ps rndB [6, 7, 8, 9, 10, 11] idx storeB j ts
        = processTumbles_loop ps rndB [6, 7, 8, 9, 10, 11] idx' storeB j' ts'"
    using loop_step_B [OF assms(1)] by blast
  have s0: "processTumbles_loop ps rndB [6, 7, 8, 9, 10, 11] 0 storeB k []
      = processTumbles_loop ps rndB [6, 7, 8, 9, 10, 11] 1 storeB (k + 30)
          [tumbleB 0]"
    by (rule step) (use assms(2) in simp_all)
  have s1: "processTumbles_loop ps rndB [6, 7, 8, 9, 10, 11] 1 storeB (k + 30) [tumbleB 0]
      = processTumbles_loop ps rndB [6, 7, 8, 9, 10, 11] 2 storeB (k + 60)
          [tumbleB 0, tumbleB 1]"
    by (rule step) (use assms(2) in simp_all)
  have s2: "processTumbles_loop ps rndB [6, 7, 8, 9, 10, 11] 2 storeB (k + 60) [tumbleB 0, tumbleB 1]
      = processTumbles_loop ps rndB [6, 7, 8, 9, 10, 11] 3 storeB (k + 90)
          [tumbleB 0, tumbleB 1, tumbleB 2]"
    by (rule step) (use assms(2) in simp_all)
  have s3: "processTumbles_loop ps rndB [6, 7, 8, 9, 10, 11] 3 storeB (k + 90) [tumbleB 0, tumbleB 1, tumbleB 2]
      = processTumbles_loop ps rndB [6, 7, 8, 9, 10, 11] 4 storeB (k + 120)
          [tumbleB 0, tumbleB 1, tumbleB 2, tumbleB 3]"
    by (rule step) (use assms(2) in simp_all)
  have s4: "processTumbles_loop ps rndB [6, 7, 8, 9, 10, 11] 4 storeB (k + 120) [tumbleB 0, tumbleB 1, tumbleB 2, tumbleB 3]
      = processTumbles_loop ps rndB [6, 7, 8, 9, 10, 11] 5 storeB (k + 150)
          [tumbleB 0, tumbleB 1, tumbleB 2, tumbleB 3, tumbleB 4]"
    by (rule step) (use assms(2) in simp_all)
  have s5: "processTumbles_loop ps rndB [6, 7, 8, 9, 10, 11] 5 storeB (k + 150)
          [tumbleB 0, tumbleB 1, tumbleB 2, tumbleB 3, tumbleB 4]
      = ([tumbleB 0, tumbleB 1, tumbleB 2, tumbleB 3, tumbleB 4], k + 150, storeB)"
    by (rule loop_end) simp
  show ?thesis
    by (simp only: s0 s1 s2 s3 s4 s5)
qed

lemma processTumbles_B:
  assumes "anteBet ps = False"
  shows "processTumbles [0, 1, 2, 3, 4, 5] ps rndB 30 bombGrid
     = ([tumbleB 0, tumbleB 1, tumbleB 2, tumbleB 3, tumbleB 4], 180, storeB)"
proof -
  have "deepCopy bombGrid [0, 1, 2, 3, 4, 5] = ([6, 7, 8, 9, 10, 11], storeB)"
    by (simp add: deepCopy_def storeB_def bombGrid_def)
  then show ?thesis
    using loop_B [OF assms, of 30] by (simp add: processTumbles_def)
qed

lemma generateGrid_C: "generateGrid False rndC 0 [] = ([0, 1, 2, 3, 4, 5], 30, scatterGrid)"
  by (simp add: generateGrid_def getRandomSymbol_def rndC_def percent.rep_eq scatterGrid_def)

lemma detectClusters_scatterGrid:
  "detectClusters scatterGrid = [\<lparr>symbolId = 6, positions = sweep27, csize = 27\<rparr>]"
  by (simp add: scatterGrid_def detectClusters_def allCells_def floodFill_def cell_def sweep27_def)

lemma detectClusters_settledGrid: "detectClusters settledGrid = []"
  by (simp add: settledGrid_def detectClusters_def allCells_def floodFill_def cell_def)

lemma findMultipliers_scatterGrid: "findMultipliers scatterGrid rnd k = ([], k)"
  by (simp add: findMultipliers_def allCells_def scatterGrid_def cell_def)

lemma collect_sweep27:
  "collectRemovePositions [\<lparr>symbolId = s, positions = sweep27, csize = 27\<rparr>] = sweep27"
  by (simp add: collectRemovePositions_def pushUnlessFound_def sweep27_def)

lemma drawNewSymbols_C: "drawNewSymbols False rndC sweep27 30 = (refillC, 57)"
  by (simp add: sweep27_def refillC_def getRandomSymbol_def rndC_def percent.rep_eq)

lemma readGrid_C0: "readGrid (scatterGrid @ scatterGrid) [6, 7, 8, 9, 10, 11] = scatterGrid"
  by (simp add: readGrid_def scatterGrid_def)

lemma readGrid_C1: "readGrid (scatterGrid @ settledGrid) [6, 7, 8, 9, 10, 11] = settledGrid"
  by (simp add: readGrid_def scatterGrid_def settledGrid_def)

lemma write_C:
  "foldl (writeCell [6, 7, 8, 9, 10, 11]) (scatterGrid @ scatterGrid) refillC
     = scatterGrid @ settledGrid"
  by (simp add: writeCell_def scatterGrid_def settledGrid_def refillC_def sweep27_def
      list_update_Cons_numeral)

lemma tumbleStep_C:
  assumes "anteBet ps = False"
  shows "tumbleStep ps rndC [6, 7, 8, 9, 10, 11] 0
       [\<lparr>symbolId = 6, positions = sweep27, csize = 27\<rparr>] (scatterGrid @ scatterGrid) 30
     = (tumbleC, 57, scatterGrid @ settledGrid)"
  unfolding tumbleStep_def readGrid_C0 findMultipliers_scatterGrid collect_sweep27 assms
  by (simp add: drawNewSymbols_C write_C tumbleC_def calculateWin_def payout_def)

lemma loop_C:
  assumes "anteBet ps = False"
  shows "processTumbles_loop ps rndC [6, 7, 8, 9, 10, 11] 0 (scatterGrid @ scatterGrid) 30 []
     = ([tumbleC], 57, scatterGrid @ settledGrid)"
proof -
  have last: "processTumbles_loop ps rndC [6, 7, 8, 9, 10, 11] (Suc 0) (scatterGrid @ settledGrid) 57
      [tumbleC] = ([tumbleC], 57, scatterGrid @ settledGrid)"
    by (subst processTumbles_loop.simps) (simp add: readGrid_C1 detectClusters_settledGrid)
  show ?thesis
    by (subst processTumbles_loop.simps)
       (simp add: readGrid_C0 detectClusters_scatterGrid tumbleStep_C [OF assms] last)
qed

lemma processTumbles_C:
  assumes "anteBet ps = False"
  shows "processTumbles [0, 1, 2, 3, 4, 5] ps rndC 30 scatterGrid
     = ([tumbleC], 57, scatterGrid @ settledGrid)"
proof -
  have "deepCopy scatterGrid [0, 1, 2, 3, 4, 5] = ([6, 7, 8, 9, 10, 11], scatterGrid @ scatterGrid)"
    by (simp add: deepCopy_def scatterGrid_def)
  then show ?thesis
    by (simp add: processTumbles_def loop_C [OF assms])
qed





lemma generateGrid_E: "generateGrid False rndE 0 [] = ([0, 1, 2, 3, 4, 5], 30, spreadGrid)"
  by (simp add: generateGrid_def getRandomSymbol_def rndE_def percent.rep_eq spreadGrid_def)

lemma detectClusters_spreadGrid: "detectClusters spreadGrid = []"
  by (simp add: spreadGrid_def detectClusters_def allCells_def floodFill_def cell_def)

lemma processTumbles_E:
  "processTumbles [0, 1, 2, 3, 4, 5] ps rndE 30 spreadGrid = ([], 30, spreadGrid @ spreadGrid)"
proof -
  have dc: "deepCopy spreadGrid [0, 1, 2, 3, 4, 5]
      = ([6, 7, 8, 9, 10, 11], spreadGrid @ spreadGrid)"
    by (simp add: deepCopy_def spreadGrid_def)
  have rd: "readGrid (spreadGrid @ spreadGrid) [6, 7, 8, 9, 10, 11] = spreadGrid"
    by (simp add: readGrid_def spreadGrid_def)
  have "processTumbles_loop ps rndE [6, 7, 8, 9, 10, 11] 0 (spreadGrid @ spreadGrid) 30 []
      = ([], 30, spreadGrid @ spreadGrid)"
    by (subst processTumbles_loop.simps) (simp add: rd detectClusters_spreadGrid)
  with dc show ?thesis
    by (simp add: processTumbles_def)
qed














section \<open>Evaluation of a sample game\<close>
















section \<open>What a spin does to the session's multiplier\<close>












section \<open>The sprite detector collects pay symbols only\<close>

lemma GridManager_floodFill_loop_positions:
  "GridManager_floodFill_loop sg t queue visited ps = (ps', visited') \<Longrightarrow>
     \<forall>p \<in> set ps. p \<in> board \<and> sprite sg p = Some t \<and> t \<noteq> 9 \<and> t \<noteq> 10 \<Longrightarrow>
     \<forall>p \<in> set ps'. p \<in> board \<and> sprite sg p = Some t \<and> t \<noteq> 9 \<and> t \<noteq> 10"
proof (induction sg t queue visited ps rule: GridManager_floodFill_loop.induct)
  case (1 sg startId visited ps)
  then show ?case by (simp add: GridManager_floodFill_loop.simps)
next
  case (2 sg startId col row queue visited ps)
  let ?skip = "GridManager_floodFill_loop sg startId queue visited ps = (ps', visited')"
  note unroll = "2.prems"(1) [unfolded GridManager_floodFill_loop.simps(2)]
  show ?case
  proof (cases "col < 0 \<or> col \<ge> 6 \<or> row < 0 \<or> row \<ge> 5")
    case True
    then have ?skip using unroll by simp
    from "2.IH"(1) [OF True this "2.prems"(2)] show ?thesis .
  next
    case inside: False
    show ?thesis
    proof (cases "(col, row) \<in> visited")
      case True
      then have ?skip using unroll inside by simp
      from "2.IH"(2) [OF inside True this "2.prems"(2)] show ?thesis .
    next
      case fresh: False
      show ?thesis
      proof (cases "sprite sg (col, row)")
        case None
        then have ?skip using unroll inside fresh by simp
        from "2.IH"(3) [OF inside fresh None this "2.prems"(2)] show ?thesis .
      next
        case (Some currentId)
        show ?thesis
        proof (cases "currentId \<noteq> startId")
          case True
          then have ?skip using unroll inside fresh Some by simp
          from "2.IH"(4) [OF inside fresh Some True this "2.prems"(2)] show ?thesis .
        next
          case same: False
          show ?thesis
          proof (cases "currentId = 9 \<or> currentId = 10")
            case True
            then have ?skip using unroll inside fresh Some same by simp
            from "2.IH"(5) [OF inside fresh Some same True this "2.prems"(2)] show ?thesis .
          next
            case pay: False
            have inb: "(col, row) \<in> board" using inside by (auto simp: board_def)
            have run: "GridManager_floodFill_loop sg startId
                (queue @ [(col + 1, row), (col - 1, row), (col, row + 1), (col, row - 1)])
                (insert (col, row) visited) (ps @ [(col, row)]) = (ps', visited')"
              using unroll inside fresh Some same pay by simp
            have "\<forall>p \<in> set (ps @ [(col, row)]).
                p \<in> board \<and> sprite sg p = Some startId \<and> startId \<noteq> 9 \<and> startId \<noteq> 10"
              using "2.prems"(2) inb Some same pay by auto
            from "2.IH"(6) [OF inside fresh Some same pay run this] show ?thesis .
          qed
        qed
      qed
    qed
  qed
qed

lemma GridManager_detectClusters_loop_inv:
  "\<forall>c \<in> set cs. 8 \<le> length (positions c)
        \<and> (\<forall>p \<in> set (positions c). p \<in> board \<and> sprite sg p = Some (symbolId c)
              \<and> symbolId c \<noteq> 9 \<and> symbolId c \<noteq> 10) \<Longrightarrow>
   \<forall>c \<in> set (GridManager_detectClusters_loop sg rest visited cs). 8 \<le> length (positions c)
        \<and> (\<forall>p \<in> set (positions c). p \<in> board \<and> sprite sg p = Some (symbolId c)
              \<and> symbolId c \<noteq> 9 \<and> symbolId c \<noteq> 10)"
proof (induction rest arbitrary: visited cs)
  case Nil
  then show ?case by simp
next
  case (Cons p rest)
  obtain col row where p: "p = (col, row)" by (cases p)
  show ?case
  proof (cases "(col, row) \<in> visited")
    case True
    from Cons.IH [OF Cons.prems, of visited] show ?thesis
      using p True by simp
  next
    case False
    show ?thesis
    proof (cases "sprite sg (col, row)")
      case None
      from Cons.IH [OF Cons.prems, of visited] show ?thesis
        using p None False by simp
    next
      case (Some t)
      obtain ps visited' where ff:
        "GridManager_floodFill_loop sg t [(col, row)] visited [] = (ps, visited')"
        by (cases "GridManager_floodFill_loop sg t [(col, row)] visited []")
      have pos: "\<forall>q \<in> set ps. q \<in> board \<and> sprite sg q = Some t \<and> t \<noteq> 9 \<and> t \<noteq> 10"
        using GridManager_floodFill_loop_positions [OF ff] by simp
      show ?thesis
      proof (cases "8 \<le> length ps")
        case True
        let ?c = "\<lparr>symbolId = t, positions = ps, csize = length ps\<rparr>"
        have "\<forall>c \<in> set (cs @ [?c]). 8 \<le> length (positions c)
            \<and> (\<forall>p \<in> set (positions c). p \<in> board \<and> sprite sg p = Some (symbolId c)
                  \<and> symbolId c \<noteq> 9 \<and> symbolId c \<noteq> 10)"
          using Cons.prems pos True by auto
        from Cons.IH [OF this, of visited'] show ?thesis
          using p Some False ff True by (simp add: GridManager_floodFill_def MIN_CLUSTER_SIZE_def)
      next
        case short: False
        from Cons.IH [OF Cons.prems, of visited'] show ?thesis
          using p Some False ff short by (simp add: GridManager_floodFill_def MIN_CLUSTER_SIZE_def)
      qed
    qed
  qed
qed

lemma GridManager_detectClusters_ok:
  "\<forall>c \<in> set (GridManager_detectClusters sg). 8 \<le> length (positions c)
        \<and> (\<forall>p \<in> set (positions c). p \<in> board \<and> sprite sg p = Some (symbolId c)
              \<and> symbolId c \<noteq> 9 \<and> symbolId c \<noteq> 10)"
  unfolding GridManager_detectClusters_def
  by (rule GridManager_detectClusters_loop_inv) simp


section \<open>Claims about the cluster detector\<close>

text \<open>
  C5. For every 6 x 5 grid, each cluster that \<open>detectClusters\<close> emits has at least
  \<open>MIN_CLUSTER_SIZE\<close> = 8 cells (its \<open>size\<close> field is the length of its position list,
  which holds no position twice), and two different emitted clusters have no position in
  common.
\<close>

theorem detectClusters_min_size_disjoint:
  assumes "wf_grid gv"
  shows "(\<forall>c \<in> set (detectClusters gv).
            MIN_CLUSTER_SIZE \<le> csize c \<and> csize c = length (positions c) \<and> distinct (positions c))
       \<and> (\<forall>i j. i < j \<and> j < length (detectClusters gv) \<longrightarrow>
            set (positions (detectClusters gv ! i)) \<inter> set (positions (detectClusters gv ! j)) = {})"
proof -
  have ok: "list_all (cluster_ok gv) (detectClusters gv)"
    and dis: "distinct (concat (map positions (detectClusters gv)))"
    using detectClusters_ok [of gv] by simp_all
  have "\<forall>c \<in> set (detectClusters gv).
      MIN_CLUSTER_SIZE \<le> csize c \<and> csize c = length (positions c) \<and> distinct (positions c)"
  proof
    fix c assume c: "c \<in> set (detectClusters gv)"
    then have "cluster_ok gv c" using ok by (simp add: list_all_iff)
    moreover have "distinct (positions c)"
      using dis c by (simp add: distinct_concat_iff)
    ultimately show "MIN_CLUSTER_SIZE \<le> csize c \<and> csize c = length (positions c) \<and> distinct (positions c)"
      by (simp add: cluster_ok_def MIN_CLUSTER_SIZE_def)
  qed
  moreover have "\<forall>i j. i < j \<and> j < length (detectClusters gv) \<longrightarrow>
      set (positions (detectClusters gv ! i)) \<inter> set (positions (detectClusters gv ! j)) = {}"
  proof (intro allI impI)
    fix i j assume ij: "i < j \<and> j < length (detectClusters gv)"
    then have "set (map positions (detectClusters gv) ! i) \<inter> set (map positions (detectClusters gv) ! j) = {}"
      using distinct_concat_disjoint [OF dis, of i j] by simp
    then show "set (positions (detectClusters gv ! i)) \<inter> set (positions (detectClusters gv ! j)) = {}"
      using ij by simp
  qed
  ultimately show ?thesis by blast
qed

theorem detectClusters_min_size_disjoint_witness:
  "wf_grid blocksGrid
     \<and> map csize (detectClusters blocksGrid) = [15, 12]
     \<and> MIN_CLUSTER_SIZE \<le> csize (detectClusters blocksGrid ! 0)
     \<and> MIN_CLUSTER_SIZE \<le> csize (detectClusters blocksGrid ! 1)
     \<and> set (positions (detectClusters blocksGrid ! 0)) \<inter> set (positions (detectClusters blocksGrid ! 1)) = {}"
proof -
  have wf: "wf_grid blocksGrid"
    by (simp add: wf_grid_def blocksGrid_def)
  have sizes: "map csize (detectClusters blocksGrid) = [15, 12]"
    by (simp add: blocksGrid_def detectClusters_def allCells_def floodFill_def cell_def)
  then have len: "length (detectClusters blocksGrid) = 2"
    using length_map [of csize "detectClusters blocksGrid"] by simp
  note claim = detectClusters_min_size_disjoint [OF wf]
  have mem: "detectClusters blocksGrid ! 0 \<in> set (detectClusters blocksGrid)"
    "detectClusters blocksGrid ! 1 \<in> set (detectClusters blocksGrid)"
    using len by simp_all
  have big: "MIN_CLUSTER_SIZE \<le> csize (detectClusters blocksGrid ! 0)"
    "MIN_CLUSTER_SIZE \<le> csize (detectClusters blocksGrid ! 1)"
    using claim mem by blast+
  have "set (positions (detectClusters blocksGrid ! 0)) \<inter> set (positions (detectClusters blocksGrid ! 1)) = {}"
    using claim len by simp
  then show ?thesis using wf sizes big by simp
qed

text \<open>
  C6. For every 6 x 5 grid, no cluster that \<open>detectClusters\<close> emits has the scatter (9) or
  the multiplier (10) as its symbol, and every position in its list lies on the board and
  holds neither 9 nor 10: such a cell neither seeds a cluster nor joins one. The same
  holds for the clusters that \<open>GridManager.detectClusters\<close> emits on a grid of sprites.
\<close>

theorem detectClusters_no_specials:
  assumes "wf_grid gv" "wf_sprites sg"
  shows "(\<forall>c \<in> set (detectClusters gv).
            symbolId c \<noteq> 9 \<and> symbolId c \<noteq> 10
          \<and> (\<forall>p \<in> set (positions c). p \<in> board \<and> cell gv p \<noteq> 9 \<and> cell gv p \<noteq> 10))
       \<and> (\<forall>c \<in> set (GridManager_detectClusters sg).
            symbolId c \<noteq> 9 \<and> symbolId c \<noteq> 10
          \<and> (\<forall>p \<in> set (positions c).
                p \<in> board \<and> sprite sg p \<noteq> Some 9 \<and> sprite sg p \<noteq> Some 10))"
proof
  show "\<forall>c \<in> set (detectClusters gv).
            symbolId c \<noteq> 9 \<and> symbolId c \<noteq> 10
          \<and> (\<forall>p \<in> set (positions c). p \<in> board \<and> cell gv p \<noteq> 9 \<and> cell gv p \<noteq> 10)"
  proof
    fix c assume "c \<in> set (detectClusters gv)"
    then have "cluster_ok gv c"
      using detectClusters_ok [of gv] by (simp add: list_all_iff)
    then show "symbolId c \<noteq> 9 \<and> symbolId c \<noteq> 10
           \<and> (\<forall>p \<in> set (positions c). p \<in> board \<and> cell gv p \<noteq> 9 \<and> cell gv p \<noteq> 10)"
      by (auto simp: cluster_ok_def)
  qed
  show "\<forall>c \<in> set (GridManager_detectClusters sg).
            symbolId c \<noteq> 9 \<and> symbolId c \<noteq> 10
          \<and> (\<forall>p \<in> set (positions c).
                p \<in> board \<and> sprite sg p \<noteq> Some 9 \<and> sprite sg p \<noteq> Some 10)"
  proof
    fix c assume "c \<in> set (GridManager_detectClusters sg)"
    then have c: "8 \<le> length (positions c)
        \<and> (\<forall>p \<in> set (positions c). p \<in> board \<and> sprite sg p = Some (symbolId c)
              \<and> symbolId c \<noteq> 9 \<and> symbolId c \<noteq> 10)"
      using GridManager_detectClusters_ok [of sg] by blast
    then have "positions c \<noteq> []" by auto
    then obtain p where "p \<in> set (positions c)" by (cases "positions c") auto
    with c have "symbolId c \<noteq> 9 \<and> symbolId c \<noteq> 10" by blast
    with c show "symbolId c \<noteq> 9 \<and> symbolId c \<noteq> 10
          \<and> (\<forall>p \<in> set (positions c).
                p \<in> board \<and> sprite sg p \<noteq> Some 9 \<and> sprite sg p \<noteq> Some 10)"
      by auto
  qed
qed

theorem detectClusters_no_specials_witness:
  "wf_grid specialsGrid \<and> wf_sprites specialSprites
     \<and> map csize (detectClusters specialsGrid) = [27]
     \<and> cell specialsGrid (0, 0) = 9 \<and> cell specialsGrid (0, 1) = 10
     \<and> symbolId (detectClusters specialsGrid ! 0) \<noteq> 9
     \<and> symbolId (detectClusters specialsGrid ! 0) \<noteq> 10
     \<and> (0, 0) \<notin> set (positions (detectClusters specialsGrid ! 0))
     \<and> (0, 1) \<notin> set (positions (detectClusters specialsGrid ! 0))
     \<and> map csize (GridManager_detectClusters specialSprites) = [26]
     \<and> sprite specialSprites (0, 0) = Some 9 \<and> sprite specialSprites (0, 1) = Some 10
     \<and> symbolId (GridManager_detectClusters specialSprites ! 0) \<noteq> 9
     \<and> symbolId (GridManager_detectClusters specialSprites ! 0) \<noteq> 10
     \<and> (0, 0) \<notin> set (positions (GridManager_detectClusters specialSprites ! 0))
     \<and> (0, 1) \<notin> set (positions (GridManager_detectClusters specialSprites ! 0))"
proof -
  have wf: "wf_grid specialsGrid" "wf_sprites specialSprites"
    by (simp_all add: wf_grid_def specialsGrid_def wf_sprites_def specialSprites_def)
  have sizes: "map csize (detectClusters specialsGrid) = [27]"
    by (simp add: specialsGrid_def detectClusters_def allCells_def floodFill_def cell_def)
  then have len: "length (detectClusters specialsGrid) = 1"
    using length_map [of csize "detectClusters specialsGrid"] by simp
  have gsizes: "map csize (GridManager_detectClusters specialSprites) = [26]"
    by (simp add: specialSprites_def GridManager_detectClusters_def allCells_def
        GridManager_floodFill_def sprite_def GridManager_floodFill_loop.simps MIN_CLUSTER_SIZE_def)
  then have glen: "length (GridManager_detectClusters specialSprites) = 1"
    using length_map [of csize "GridManager_detectClusters specialSprites"] by simp
  have cells: "cell specialsGrid (0, 0) = 9" "cell specialsGrid (0, 1) = 10"
    "sprite specialSprites (0, 0) = Some 9" "sprite specialSprites (0, 1) = Some 10"
    by (simp_all add: specialsGrid_def cell_def specialSprites_def sprite_def)
  have mem: "detectClusters specialsGrid ! 0 \<in> set (detectClusters specialsGrid)"
    "GridManager_detectClusters specialSprites ! 0 \<in> set (GridManager_detectClusters specialSprites)"
    using len glen by simp_all
  note both = detectClusters_no_specials [OF wf]
  from conjunct1 [OF both] mem(1)
  have c: "symbolId (detectClusters specialsGrid ! 0) \<noteq> 9 \<and> symbolId (detectClusters specialsGrid ! 0) \<noteq> 10
      \<and> (\<forall>p \<in> set (positions (detectClusters specialsGrid ! 0)).
            p \<in> board \<and> cell specialsGrid p \<noteq> 9 \<and> cell specialsGrid p \<noteq> 10)"
    by blast
  from conjunct2 [OF both] mem(2)
  have g: "symbolId (GridManager_detectClusters specialSprites ! 0) \<noteq> 9
      \<and> symbolId (GridManager_detectClusters specialSprites ! 0) \<noteq> 10
      \<and> (\<forall>p \<in> set (positions (GridManager_detectClusters specialSprites ! 0)).
            p \<in> board \<and> sprite specialSprites p \<noteq> Some 9 \<and> sprite specialSprites p \<noteq> Some 10)"
    by blast
  from c cells have out: "(0, 0) \<notin> set (positions (detectClusters specialsGrid ! 0))"
    "(0, 1) \<notin> set (positions (detectClusters specialsGrid ! 0))"
    by blast+
  from g cells have gout: "(0, 0) \<notin> set (positions (GridManager_detectClusters specialSprites ! 0))"
    "(0, 1) \<notin> set (positions (GridManager_detectClusters specialSprites ! 0))"
    by blast+
  show ?thesis
    using wf sizes gsizes cells c g out gout by simp
qed

text \<open>
  C8. On the 6 x 5 grid whose cells all hold the same symbol \<open>s\<close>, with \<open>s\<close> neither the
  scatter nor the multiplier, \<open>detectClusters\<close> emits exactly one cluster; its symbol is
  \<open>s\<close>, its size is 30 and its positions are all the cells of the grid.
\<close>

theorem uniform_grid_one_cluster_of_30:
  assumes "s \<noteq> 9" "s \<noteq> 10"
  shows "\<exists>c. detectClusters (uniformGrid s) = [c] \<and> symbolId c = s \<and> csize c = 30
           \<and> length (positions c) = 30 \<and> set (positions c) = set allCells"
  using detectClusters_uniform [OF assms] length_sweep30 set_sweep30 by simp

theorem uniform_grid_one_cluster_of_30_witness:
  "(3::nat) \<noteq> 9 \<and> (3::nat) \<noteq> 10
     \<and> (\<exists>c. detectClusters (uniformGrid 3) = [c] \<and> symbolId c = 3 \<and> csize c = 30
           \<and> length (positions c) = 30 \<and> set (positions c) = set allCells)"
  using uniform_grid_one_cluster_of_30 [of 3] by simp

section \<open>Claims about the spin outcome\<close>

text \<open>
  C10. The outcome's \<open>grid\<close> field is the reference that \<open>generateGrid\<close> returned, and
  the cells it refers to hold, in the store after the call, what they held right after
  generation: \<open>processTumbles\<close> writes only into the columns of its own copy, whatever
  the tumble steps remove and refill.
\<close>

theorem initial_grid_not_mutated:
  assumes gen: "generateGrid (anteBet ps) rnd k st = (g, k1, st1)"
      and out: "generateDemoOutcome ps rnd k st = (out, k2, st2)"
  shows "grid out = g \<and> readGrid st2 (grid out) = readGrid st1 g"
proof -
  obtain ts k2' st2' where pt: "processTumbles g ps rnd k1 st1 = (ts, k2', st2')"
    by (cases "processTumbles g ps rnd k1 st1")
  note shape = generateGrid_shape [OF gen]
  from generateDemoOutcome_unfold [OF gen pt] out
  have g: "grid out = g" and st2: "st2 = st2'"
    by (auto simp: Let_def)
  from shape have len: "length g = 6" by simp
  from readGrid_frame [of g "length st1" st2' st1] shape processTumbles_frame [OF len pt]
  have "readGrid st2' g = readGrid st1 g" by blast
  then show ?thesis using g st2 by simp
qed

theorem initial_grid_not_mutated_witness:
  "generateGrid (anteBet (baseSpin 1)) rndC 0 [] = ([0, 1, 2, 3, 4, 5], 30, scatterGrid)
     \<and> tumbles (fst (generateDemoOutcome (baseSpin 1) rndC 0 [])) = [tumbleC]
     \<and> snd (snd (generateDemoOutcome (baseSpin 1) rndC 0 [])) = scatterGrid @ settledGrid
     \<and> readGrid (scatterGrid @ settledGrid) [6, 7, 8, 9, 10, 11] = settledGrid
     \<and> grid (fst (generateDemoOutcome (baseSpin 1) rndC 0 [])) = [0, 1, 2, 3, 4, 5]
     \<and> readGrid (snd (snd (generateDemoOutcome (baseSpin 1) rndC 0 [])))
          (grid (fst (generateDemoOutcome (baseSpin 1) rndC 0 [])))
        = readGrid scatterGrid [0, 1, 2, 3, 4, 5]"
proof -
  have ante: "anteBet (baseSpin 1) = False" by (simp add: baseSpin_def)
  have gen: "generateGrid (anteBet (baseSpin 1)) rndC 0 [] = ([0, 1, 2, 3, 4, 5], 30, scatterGrid)"
    using generateGrid_C ante by simp
  note pt = processTumbles_C [OF ante]
  have ts: "tumbles (fst (generateDemoOutcome (baseSpin 1) rndC 0 [])) = [tumbleC]"
    and st: "snd (snd (generateDemoOutcome (baseSpin 1) rndC 0 [])) = scatterGrid @ settledGrid"
    using generateDemoOutcome_unfold [OF gen pt] by (simp_all add: Let_def)
  have out: "generateDemoOutcome (baseSpin 1) rndC 0 []
      = (fst (generateDemoOutcome (baseSpin 1) rndC 0 []),
         fst (snd (generateDemoOutcome (baseSpin 1) rndC 0 [])),
         snd (snd (generateDemoOutcome (baseSpin 1) rndC 0 [])))"
    by simp
  note kept = initial_grid_not_mutated [OF gen out]
  note a = conjunct1 [OF kept] and b = conjunct2 [OF kept]
  show ?thesis
    using gen ts st readGrid_C1 a b by simp
qed

text \<open>
  C7. \<open>freeSpins.triggered\<close> is true exactly when at least \<open>TRIGGER_SCATTERS\<close> = 4 of the
  30 cells of the grid as generated, before any tumble, hold the scatter 9; then
  \<open>remaining\<close> and \<open>totalAwarded\<close> are \<open>INITIAL_SPINS\<close> = 10, otherwise both are 0, and
  \<open>retriggered\<close> is false. The count is taken after the tumbles but on the generated grid,
  which they leave as it was.
\<close>

theorem free_spins_trigger_on_initial_grid:
  assumes gen: "generateGrid (anteBet ps) rnd k st = (g, k1, st1)"
      and out: "generateDemoOutcome ps rnd k st = (out, k2, st2)"
  shows "triggered (freeSpins out)
           = (TRIGGER_SCATTERS \<le> card {p \<in> board. cell (readGrid st1 g) p = 9})
       \<and> remaining (freeSpins out)
           = (if TRIGGER_SCATTERS \<le> card {p \<in> board. cell (readGrid st1 g) p = 9}
              then INITIAL_SPINS else 0)
       \<and> totalAwarded (freeSpins out)
           = (if TRIGGER_SCATTERS \<le> card {p \<in> board. cell (readGrid st1 g) p = 9}
              then INITIAL_SPINS else 0)
       \<and> retriggered (freeSpins out) = False"
proof -
  obtain ts k2' st2' where pt: "processTumbles g ps rnd k1 st1 = (ts, k2', st2')"
    by (cases "processTumbles g ps rnd k1 st1")
  note shape = generateGrid_shape [OF gen]
  from shape have len: "length g = 6" by simp
  from readGrid_frame [of g "length st1" st2' st1] shape processTumbles_frame [OF len pt]
  have same: "readGrid st2' g = readGrid st1 g" by blast
  have cnt: "countScatters (readGrid st1 g) = card {p \<in> board. cell (readGrid st1 g) p = 9}"
    by (rule countScatters_cells)
  from generateDemoOutcome_unfold [OF gen pt] out same
  have "triggered (freeSpins out) = (TRIGGER_SCATTERS \<le> countScatters (readGrid st1 g))"
    "remaining (freeSpins out)
       = (if TRIGGER_SCATTERS \<le> countScatters (readGrid st1 g) then INITIAL_SPINS else 0)"
    "totalAwarded (freeSpins out)
       = (if TRIGGER_SCATTERS \<le> countScatters (readGrid st1 g) then INITIAL_SPINS else 0)"
    "retriggered (freeSpins out) = False"
    by (auto simp: Let_def TRIGGER_SCATTERS_def INITIAL_SPINS_def)
  then show ?thesis
    unfolding cnt by simp
qed

theorem free_spins_trigger_on_initial_grid_witness:
  "generateGrid (anteBet (baseSpin 1)) rndE 0 [] = ([0, 1, 2, 3, 4, 5], 30, spreadGrid)
     \<and> cell (readGrid spreadGrid [0, 1, 2, 3, 4, 5]) (1, 2) = 9
     \<and> cell (readGrid spreadGrid [0, 1, 2, 3, 4, 5]) (2, 3) = 9
     \<and> cell (readGrid spreadGrid [0, 1, 2, 3, 4, 5]) (3, 4) = 9
     \<and> cell (readGrid spreadGrid [0, 1, 2, 3, 4, 5]) (5, 3) = 9
     \<and> card {p \<in> board. cell (readGrid spreadGrid [0, 1, 2, 3, 4, 5]) p = 9} = 4
     \<and> tumbles (fst (generateDemoOutcome (baseSpin 1) rndE 0 [])) = []
     \<and> triggered (freeSpins (fst (generateDemoOutcome (baseSpin 1) rndE 0 []))) = True
     \<and> remaining (freeSpins (fst (generateDemoOutcome (baseSpin 1) rndE 0 []))) = 10
     \<and> totalAwarded (freeSpins (fst (generateDemoOutcome (baseSpin 1) rndE 0 []))) = 10
     \<and> generateGrid (anteBet (baseSpin 1)) rndC 0 [] = ([0, 1, 2, 3, 4, 5], 30, scatterGrid)
     \<and> card {p \<in> board. cell (readGrid scatterGrid [0, 1, 2, 3, 4, 5]) p = 9} = 3
     \<and> card {p \<in> board. cell settledGrid p = 9} = 4
     \<and> triggered (freeSpins (fst (generateDemoOutcome (baseSpin 1) rndC 0 []))) = False
     \<and> remaining (freeSpins (fst (generateDemoOutcome (baseSpin 1) rndC 0 []))) = 0"
proof -
  have ante: "anteBet (baseSpin 1) = False" by (simp add: baseSpin_def)
  have genE: "generateGrid (anteBet (baseSpin 1)) rndE 0 [] = ([0, 1, 2, 3, 4, 5], 30, spreadGrid)"
    using generateGrid_E ante by simp
  have genC: "generateGrid (anteBet (baseSpin 1)) rndC 0 [] = ([0, 1, 2, 3, 4, 5], 30, scatterGrid)"
    using generateGrid_C ante by simp
  have cells: "cell (readGrid spreadGrid [0, 1, 2, 3, 4, 5]) (1, 2) = 9"
    "cell (readGrid spreadGrid [0, 1, 2, 3, 4, 5]) (2, 3) = 9"
    "cell (readGrid spreadGrid [0, 1, 2, 3, 4, 5]) (3, 4) = 9"
    "cell (readGrid spreadGrid [0, 1, 2, 3, 4, 5]) (5, 3) = 9"
    by (simp_all add: readGrid_def spreadGrid_def cell_def)
  have "countScatters (readGrid spreadGrid [0, 1, 2, 3, 4, 5]) = 4"
    by (simp add: countScatters_def readGrid_def spreadGrid_def allCells_def cell_def)
  then have cntE: "card {p \<in> board. cell (readGrid spreadGrid [0, 1, 2, 3, 4, 5]) p = 9} = 4"
    by (simp add: countScatters_cells)
  have "countScatters (readGrid scatterGrid [0, 1, 2, 3, 4, 5]) = 3"
    by (simp add: countScatters_def readGrid_def scatterGrid_def allCells_def cell_def)
  then have cntC: "card {p \<in> board. cell (readGrid scatterGrid [0, 1, 2, 3, 4, 5]) p = 9} = 3"
    by (simp add: countScatters_cells)
  have "countScatters settledGrid = 4"
    by (simp add: countScatters_def settledGrid_def allCells_def cell_def)
  then have cntS: "card {p \<in> board. cell settledGrid p = 9} = 4"
    by (simp add: countScatters_cells)
  have tsE: "tumbles (fst (generateDemoOutcome (baseSpin 1) rndE 0 [])) = []"
    using generateDemoOutcome_unfold [OF genE processTumbles_E] by (simp add: Let_def)
  have outE: "generateDemoOutcome (baseSpin 1) rndE 0 []
      = (fst (generateDemoOutcome (baseSpin 1) rndE 0 []),
         fst (snd (generateDemoOutcome (baseSpin 1) rndE 0 [])),
         snd (snd (generateDemoOutcome (baseSpin 1) rndE 0 [])))"
    by simp
  have outC: "generateDemoOutcome (baseSpin 1) rndC 0 []
      = (fst (generateDemoOutcome (baseSpin 1) rndC 0 []),
         fst (snd (generateDemoOutcome (baseSpin 1) rndC 0 [])),
         snd (snd (generateDemoOutcome (baseSpin 1) rndC 0 [])))"
    by simp
  note e = free_spins_trigger_on_initial_grid [OF genE outE]
  note c = free_spins_trigger_on_initial_grid [OF genC outC]
  from e cntE have "triggered (freeSpins (fst (generateDemoOutcome (baseSpin 1) rndE 0 []))) = True"
    "remaining (freeSpins (fst (generateDemoOutcome (baseSpin 1) rndE 0 []))) = 10"
    "totalAwarded (freeSpins (fst (generateDemoOutcome (baseSpin 1) rndE 0 []))) = 10"
    by (simp_all add: TRIGGER_SCATTERS_def INITIAL_SPINS_def)
  moreover from c cntC have "triggered (freeSpins (fst (generateDemoOutcome (baseSpin 1) rndC 0 []))) = False"
    "remaining (freeSpins (fst (generateDemoOutcome (baseSpin 1) rndC 0 []))) = 0"
    by (simp_all add: TRIGGER_SCATTERS_def INITIAL_SPINS_def)
  ultimately show ?thesis
    using genE genC cells cntE cntC cntS tsE by simp
qed

text \<open>
  C4 (as amended). Every spin returns an outcome with at most five tumble steps, indexed
  0, 1, ... in order; no failure is reported. When clusters are still present after the
  fifth step, the sequence stops there and the outcome is built from the five recorded
  steps.
\<close>

theorem tumbles_capped_at_five:
  "length (tumbles (fst (generateDemoOutcome ps rnd k st))) \<le> 5
     \<and> map tumbleIndex (tumbles (fst (generateDemoOutcome ps rnd k st)))
         = [0..<length (tumbles (fst (generateDemoOutcome ps rnd k st)))]"
proof -
  obtain g k1 st1 where gen: "generateGrid (anteBet ps) rnd k st = (g, k1, st1)"
    by (cases "generateGrid (anteBet ps) rnd k st")
  obtain ts k2 st2 where pt: "processTumbles g ps rnd k1 st1 = (ts, k2, st2)"
    by (cases "processTumbles g ps rnd k1 st1")
  have "tumbles (fst (generateDemoOutcome ps rnd k st)) = ts"
    using generateDemoOutcome_unfold [OF gen pt] by (simp add: Let_def)
  then show ?thesis
    using processTumbles_tumbles [OF pt] processTumbles_indices [OF pt] by simp
qed

theorem tumbles_capped_at_five_witness:
  "tumbles (fst (generateDemoOutcome (baseSpin 2) rndA 0 []))
       = [tumbleA 0, tumbleA 1, tumbleA 2, tumbleA 3, tumbleA 4]
     \<and> length (tumbles (fst (generateDemoOutcome (baseSpin 2) rndA 0 []))) \<le> 5
     \<and> map tumbleIndex (tumbles (fst (generateDemoOutcome (baseSpin 2) rndA 0 [])))
         = [0..<length (tumbles (fst (generateDemoOutcome (baseSpin 2) rndA 0 [])))]"
proof -
  have ante: "anteBet (baseSpin 2) = False" by (simp add: baseSpin_def)
  have gen: "generateGrid (anteBet (baseSpin 2)) rndA 0 [] = ([0, 1, 2, 3, 4, 5], 30, uniformGrid 6)"
    using generateGrid_A ante by simp
  have "tumbles (fst (generateDemoOutcome (baseSpin 2) rndA 0 []))
      = [tumbleA 0, tumbleA 1, tumbleA 2, tumbleA 3, tumbleA 4]"
    using generateDemoOutcome_unfold [OF gen processTumbles_A [OF ante]] by (simp add: Let_def)
  then show ?thesis
    using tumbles_capped_at_five [of "baseSpin 2" rndA 0 "[]"] by blast
qed

text \<open>
  C4 as stated fails: with every draw 0.50 the grid is all 6s after each of the five
  steps, so the working copy (columns 6 to 11 of the store) still holds a cluster of 30
  when the loop stops; the spin returns five steps and a win of 5 x 20 x bet.
\<close>

theorem tumble_cap_counterexample:
  "generateGrid False rndA 0 [] = ([0, 1, 2, 3, 4, 5], 30, uniformGrid 6)
     \<and> deepCopy (uniformGrid 6) [0, 1, 2, 3, 4, 5] = ([6, 7, 8, 9, 10, 11], storeA)
     \<and> length (tumbles (fst (generateDemoOutcome (baseSpin 2) rndA 0 []))) = 5
     \<and> detectClusters (readGrid (snd (snd (generateDemoOutcome (baseSpin 2) rndA 0 [])))
          [6, 7, 8, 9, 10, 11]) \<noteq> []
     \<and> totalWin (winData (fst (generateDemoOutcome (baseSpin 2) rndA 0 []))) = 200"
proof -
  have ante: "anteBet (baseSpin 2) = False" by (simp add: baseSpin_def)
  have gen: "generateGrid (anteBet (baseSpin 2)) rndA 0 [] = ([0, 1, 2, 3, 4, 5], 30, uniformGrid 6)"
    using generateGrid_A ante by simp
  note out = generateDemoOutcome_unfold [OF gen processTumbles_A [OF ante]]
  have dc: "deepCopy (uniformGrid 6) [0, 1, 2, 3, 4, 5] = ([6, 7, 8, 9, 10, 11], storeA)"
    by (simp add: deepCopy_def storeA_def uniformGrid_def)
  have len: "length (tumbles (fst (generateDemoOutcome (baseSpin 2) rndA 0 []))) = 5"
    using out by (simp add: Let_def)
  have st: "snd (snd (generateDemoOutcome (baseSpin 2) rndA 0 [])) = storeA"
    using out by (simp add: Let_def)
  have left: "detectClusters (readGrid storeA [6, 7, 8, 9, 10, 11]) \<noteq> []"
    by (simp add: readGrid_A detectClusters_uniform)
  have win: "totalWin (winData (fst (generateDemoOutcome (baseSpin 2) rndA 0 []))) = 200"
    using out by (simp add: Let_def tumbleA_def baseSpin_def)
  show ?thesis
    using generateGrid_A dc len st left win by simp
qed

text \<open>
  C1 (as amended). The outcome's total win is the bet amount times the sum of the win
  amounts of the tumble steps, times the final multiplier when the spin is a free spin
  in which at least one multiplier value was drawn, and times 1 otherwise. The final
  multiplier is then the accumulated multiplier passed in plus the sum of the values
  drawn in this spin.
\<close>

theorem total_win_formula:
  assumes "generateDemoOutcome ps rnd k st = (out, k', st')"
  shows "totalWin (winData out)
           = betAmount ps * sum_list (map winAmount (tumbles out))
               * (if isFreeSpins ps \<and> w_multipliers (winData out) \<noteq> []
                  then finalMultiplier (winData out) else 1)
       \<and> w_multipliers (winData out) = concat (map multipliers (tumbles out))
       \<and> finalMultiplier (winData out)
           = (if isFreeSpins ps \<and> w_multipliers (winData out) \<noteq> []
              then accumulatedMultiplier ps + sum_list (map m_value (w_multipliers (winData out)))
              else 1)"
proof -
  obtain g k1 st1 where gen: "generateGrid (anteBet ps) rnd k st = (g, k1, st1)"
    by (cases "generateGrid (anteBet ps) rnd k st")
  obtain ts k2 st2 where pt: "processTumbles g ps rnd k1 st1 = (ts, k2, st2)"
    by (cases "processTumbles g ps rnd k1 st1")
  from generateDemoOutcome_unfold [OF gen pt] assms
  show ?thesis
    by (auto simp: Let_def sumValues_def foldl_add_sum_list)
qed

theorem total_win_formula_witness:
  "isFreeSpins (freeSpin 2 3)
     \<and> sum_list (map winAmount (tumbles (fst (generateDemoOutcome (freeSpin 2 3) rndB 0 [])))) = 100
     \<and> finalMultiplier (winData (fst (generateDemoOutcome (freeSpin 2 3) rndB 0 []))) = 48
     \<and> totalWin (winData (fst (generateDemoOutcome (freeSpin 2 3) rndB 0 []))) = 9600"
proof -
  have ante: "anteBet (freeSpin 2 3) = False" by (simp add: freeSpin_def)
  have gen: "generateGrid (anteBet (freeSpin 2 3)) rndB 0 [] = ([0, 1, 2, 3, 4, 5], 30, bombGrid)"
    using generateGrid_B ante by simp
  note ev = generateDemoOutcome_unfold [OF gen processTumbles_B [OF ante]]
  have ts: "tumbles (fst (generateDemoOutcome (freeSpin 2 3) rndB 0 []))
      = [tumbleB 0, tumbleB 1, tumbleB 2, tumbleB 3, tumbleB 4]"
    and ms: "w_multipliers (winData (fst (generateDemoOutcome (freeSpin 2 3) rndB 0 [])))
      = concat (map multipliers [tumbleB 0, tumbleB 1, tumbleB 2, tumbleB 3, tumbleB 4])"
    using ev by (simp_all add: Let_def)
  have out: "generateDemoOutcome (freeSpin 2 3) rndB 0 []
      = (fst (generateDemoOutcome (freeSpin 2 3) rndB 0 []),
         fst (snd (generateDemoOutcome (freeSpin 2 3) rndB 0 [])),
         snd (snd (generateDemoOutcome (freeSpin 2 3) rndB 0 [])))"
    by simp
  note f = total_win_formula [OF out]
  have fm: "finalMultiplier (winData (fst (generateDemoOutcome (freeSpin 2 3) rndB 0 []))) = 48"
    using conjunct2 [OF conjunct2 [OF f]] ms by (simp add: tumbleB_def freeSpin_def)
  have win: "totalWin (winData (fst (generateDemoOutcome (freeSpin 2 3) rndB 0 []))) = 9600"
    using conjunct1 [OF f] ms ts fm by (simp add: tumbleB_def freeSpin_def)
  show ?thesis
    using ts fm win by (simp add: tumbleB_def freeSpin_def)
qed

text \<open>
  C1 as stated fails twice. In the base game with bet 2 and every draw 0.50 the step wins
  sum to 100 and the total win is 200: the bet is a factor. In a free spin with
  accumulated multiplier 5, bet 1 and the same draws, no multiplier is drawn and the
  total win is the plain sum 100, not 500.
\<close>

theorem total_win_counterexample:
  "\<not> isFreeSpins (baseSpin 2)
     \<and> sum_list (map winAmount (tumbles (fst (generateDemoOutcome (baseSpin 2) rndA 0 [])))) = 100
     \<and> totalWin (winData (fst (generateDemoOutcome (baseSpin 2) rndA 0 []))) = 200
     \<and> isFreeSpins (freeSpin 1 5) \<and> accumulatedMultiplier (freeSpin 1 5) = 5
     \<and> sum_list (map winAmount (tumbles (fst (generateDemoOutcome (freeSpin 1 5) rndA 0 [])))) = 100
     \<and> totalWin (winData (fst (generateDemoOutcome (freeSpin 1 5) rndA 0 []))) = 100"
proof -
  have ante: "anteBet (baseSpin 2) = False" "anteBet (freeSpin 1 5) = False"
    by (simp_all add: baseSpin_def freeSpin_def)
  have gen: "generateGrid (anteBet (baseSpin 2)) rndA 0 [] = ([0, 1, 2, 3, 4, 5], 30, uniformGrid 6)"
    "generateGrid (anteBet (freeSpin 1 5)) rndA 0 [] = ([0, 1, 2, 3, 4, 5], 30, uniformGrid 6)"
    using generateGrid_A ante by simp_all
  note base = generateDemoOutcome_unfold [OF gen(1) processTumbles_A [OF ante(1)]]
  note free = generateDemoOutcome_unfold [OF gen(2) processTumbles_A [OF ante(2)]]
  have "sum_list (map winAmount (tumbles (fst (generateDemoOutcome (baseSpin 2) rndA 0 [])))) = 100"
    "totalWin (winData (fst (generateDemoOutcome (baseSpin 2) rndA 0 []))) = 200"
    using base by (simp_all add: Let_def tumbleA_def baseSpin_def)
  moreover have "sum_list (map winAmount (tumbles (fst (generateDemoOutcome (freeSpin 1 5) rndA 0 [])))) = 100"
    "totalWin (winData (fst (generateDemoOutcome (freeSpin 1 5) rndA 0 []))) = 100"
    using free by (simp_all add: Let_def tumbleA_def freeSpin_def)
  ultimately show ?thesis
    by (simp add: baseSpin_def freeSpin_def)
qed




text \<open>
  C3 (as amended). In the base game and in free spins alike, the win amount of each
  tumble step is the sum of the size-tier payouts of its clusters, with no multiplier
  applied; the step's \<open>multiplier\<close> field only records the sum of the values drawn for
  the bombs on the grid at that step (1 when there is none). In the base game the total
  win is the bet times the sum of the step wins; in a free spin that product is
  multiplied once more, by the final multiplier, when a multiplier value was drawn.
\<close>

theorem step_win_without_multiplier:
  assumes "generateDemoOutcome ps rnd k st = (out, k', st')"
  shows "(\<forall>t \<in> set (tumbles out).
            winAmount t = sum_list (map (\<lambda>c. payout (csize c)) (clusters t))
          \<and> multiplier t = (if multipliers t = [] then 1 else sumValues (multipliers t)))
       \<and> (\<not> isFreeSpins ps \<longrightarrow>
            totalWin (winData out) = betAmount ps * sum_list (map winAmount (tumbles out)))
       \<and> (isFreeSpins ps \<longrightarrow>
            totalWin (winData out)
              = betAmount ps * sum_list (map winAmount (tumbles out))
                  * (if concat (map multipliers (tumbles out)) = [] then 1
                     else accumulatedMultiplier ps
                            + sumValues (concat (map multipliers (tumbles out)))))"
proof -
  obtain g k1 st1 where gen: "generateGrid (anteBet ps) rnd k st = (g, k1, st1)"
    by (cases "generateGrid (anteBet ps) rnd k st")
  obtain ts k2 st2 where pt: "processTumbles g ps rnd k1 st1 = (ts, k2, st2)"
    by (cases "processTumbles g ps rnd k1 st1")
  note ev = generateDemoOutcome_unfold [OF gen pt]
  have ts: "tumbles out = ts"
    using ev assms by (auto simp: Let_def)
  have "\<forall>t \<in> set ts. tumble_ok ps t"
    using processTumbles_tumbles [OF pt] by simp
  then have steps: "\<forall>t \<in> set (tumbles out).
            winAmount t = sum_list (map (\<lambda>c. payout (csize c)) (clusters t))
          \<and> multiplier t = (if multipliers t = [] then 1 else sumValues (multipliers t))"
    using ts by (auto simp: tumble_ok_def calculateWin_def foldl_add_sum_list)
  have total: "(\<not> isFreeSpins ps \<longrightarrow>
            totalWin (winData out) = betAmount ps * sum_list (map winAmount (tumbles out)))
       \<and> (isFreeSpins ps \<longrightarrow>
            totalWin (winData out)
              = betAmount ps * sum_list (map winAmount (tumbles out))
                  * (if concat (map multipliers (tumbles out)) = [] then 1
                     else accumulatedMultiplier ps
                            + sumValues (concat (map multipliers (tumbles out)))))"
    using ev assms by (auto simp: Let_def foldl_add_sum_list)
  from steps total show ?thesis by blast
qed

theorem step_win_without_multiplier_witness:
  "\<not> isFreeSpins (baseSpin 1)
     \<and> tumbles (fst (generateDemoOutcome (baseSpin 1) rndB 0 []))
         = [tumbleB 0, tumbleB 1, tumbleB 2, tumbleB 3, tumbleB 4]
     \<and> multipliers (tumbleB 0) = [\<lparr>m_col = 0, m_row = 0, m_value = 9\<rparr>]
     \<and> winAmount (tumbleB 0) = sum_list (map (\<lambda>c. payout (csize c)) (clusters (tumbleB 0)))
     \<and> winAmount (tumbleB 0) = 20
     \<and> multiplier (tumbleB 0) = sumValues (multipliers (tumbleB 0))
     \<and> totalWin (winData (fst (generateDemoOutcome (baseSpin 1) rndB 0 []))) = 100"
proof -
  have ante: "anteBet (baseSpin 1) = False" by (simp add: baseSpin_def)
  have gen: "generateGrid (anteBet (baseSpin 1)) rndB 0 [] = ([0, 1, 2, 3, 4, 5], 30, bombGrid)"
    using generateGrid_B ante by simp
  note ev = generateDemoOutcome_unfold [OF gen processTumbles_B [OF ante]]
  have ts: "tumbles (fst (generateDemoOutcome (baseSpin 1) rndB 0 []))
      = [tumbleB 0, tumbleB 1, tumbleB 2, tumbleB 3, tumbleB 4]"
    using ev by (simp add: Let_def)
  have out: "generateDemoOutcome (baseSpin 1) rndB 0 []
      = (fst (generateDemoOutcome (baseSpin 1) rndB 0 []),
         fst (snd (generateDemoOutcome (baseSpin 1) rndB 0 [])),
         snd (snd (generateDemoOutcome (baseSpin 1) rndB 0 [])))"
    by simp
  note f = step_win_without_multiplier [OF out]
  have base: "\<not> isFreeSpins (baseSpin 1)" by (simp add: baseSpin_def)
  have step: "winAmount (tumbleB 0) = sum_list (map (\<lambda>c. payout (csize c)) (clusters (tumbleB 0)))
      \<and> multiplier (tumbleB 0) = (if multipliers (tumbleB 0) = [] then 1 else sumValues (multipliers (tumbleB 0)))"
    using conjunct1 [OF f] ts by simp
  have win: "totalWin (winData (fst (generateDemoOutcome (baseSpin 1) rndB 0 []))) = 100"
    using conjunct1 [OF conjunct2 [OF f]] base ts by (simp add: tumbleB_def baseSpin_def)
  have ms: "multipliers (tumbleB 0) = [\<lparr>m_col = 0, m_row = 0, m_value = 9\<rparr>]"
    and w0: "winAmount (tumbleB 0) = 20"
    by (simp_all add: tumbleB_def)
  show ?thesis
    using base ts step win ms w0 by simp
qed

text \<open>
  C3 as stated fails: in the base game with bet 1, a bomb at (0, 0) and 6s elsewhere, the
  first step has the multiplier sum 9 and the cluster payout 20; its win amount is 20,
  not 180, and the total win over the five steps is 100, not 900. In a free spin with
  accumulated multiplier 3 on the same draws the first step's win amount is again 20,
  not 20 x (3 + 9).
\<close>

theorem step_multiplier_counterexample:
  "\<not> isFreeSpins (baseSpin 1)
     \<and> multipliers (hd (tumbles (fst (generateDemoOutcome (baseSpin 1) rndB 0 [])))) \<noteq> []
     \<and> sumValues (multipliers (hd (tumbles (fst (generateDemoOutcome (baseSpin 1) rndB 0 []))))) = 9
     \<and> calculateWin (clusters (hd (tumbles (fst (generateDemoOutcome (baseSpin 1) rndB 0 []))))) 1 = 20
     \<and> winAmount (hd (tumbles (fst (generateDemoOutcome (baseSpin 1) rndB 0 [])))) = 20
     \<and> totalWin (winData (fst (generateDemoOutcome (baseSpin 1) rndB 0 []))) = 100
     \<and> isFreeSpins (freeSpin 1 3)
     \<and> winAmount (hd (tumbles (fst (generateDemoOutcome (freeSpin 1 3) rndB 0 [])))) = 20"
proof -
  have ante: "anteBet (baseSpin 1) = False" "anteBet (freeSpin 1 3) = False"
    by (simp_all add: baseSpin_def freeSpin_def)
  have gen: "generateGrid (anteBet (baseSpin 1)) rndB 0 [] = ([0, 1, 2, 3, 4, 5], 30, bombGrid)"
    "generateGrid (anteBet (freeSpin 1 3)) rndB 0 [] = ([0, 1, 2, 3, 4, 5], 30, bombGrid)"
    using generateGrid_B ante by simp_all
  note base = generateDemoOutcome_unfold [OF gen(1) processTumbles_B [OF ante(1)]]
  note free = generateDemoOutcome_unfold [OF gen(2) processTumbles_B [OF ante(2)]]
  have tb: "hd (tumbles (fst (generateDemoOutcome (baseSpin 1) rndB 0 []))) = tumbleB 0"
    using base by (simp add: Let_def)
  have tf: "hd (tumbles (fst (generateDemoOutcome (freeSpin 1 3) rndB 0 []))) = tumbleB 0"
    using free by (simp add: Let_def)
  have win: "totalWin (winData (fst (generateDemoOutcome (baseSpin 1) rndB 0 []))) = 100"
    using base by (simp add: Let_def tumbleB_def baseSpin_def)
  have pay: "calculateWin (clusters (tumbleB 0)) 1 = 20"
    by (simp add: tumbleB_def calculateWin_def payout_def)
  show ?thesis
    unfolding tb tf using win pay
    by (simp add: tumbleB_def sumValues_def baseSpin_def freeSpin_def)
qed

section \<open>The symbol draw under the ante bet\<close>

lemma scatter_iff:
  "(getRandomSymbol ante u = 9)
     = (85 \<le> Rep_unit_draw u * 100 \<and> Rep_unit_draw u * 100 < (if ante then 95 else 92))"
  by (simp add: getRandomSymbol_def Let_def)

text \<open>
  C9. A draw \<open>u\<close> yields the scatter exactly when 85 \<le> 100 u < 95 with the ante bet and
  exactly when 85 \<le> 100 u < 92 without it: the two intervals have the lengths 0.10 and
  0.07. Of the hundred draws 0.00, ..., 0.99, ten yield the scatter with the ante bet and
  seven without, and ten is not \<open>SCATTER_CHANCE_MULTIPLIER\<close> = 2 times seven.
\<close>

theorem scatter_draw_interval:
  "(getRandomSymbol True u = 9) = (85 \<le> Rep_unit_draw u * 100 \<and> Rep_unit_draw u * 100 < 95)
     \<and> (getRandomSymbol False u = 9) = (85 \<le> Rep_unit_draw u * 100 \<and> Rep_unit_draw u * 100 < 92)
     \<and> scatterDraws True = 10 \<and> scatterDraws False = 7
     \<and> real (scatterDraws True) \<noteq> SCATTER_CHANCE_MULTIPLIER * real (scatterDraws False)"
proof -
  have t: "(getRandomSymbol True u = 9) = (85 \<le> Rep_unit_draw u * 100 \<and> Rep_unit_draw u * 100 < 95)"
    by (simp add: scatter_iff)
  have f: "(getRandomSymbol False u = 9) = (85 \<le> Rep_unit_draw u * 100 \<and> Rep_unit_draw u * 100 < 92)"
    by (simp add: scatter_iff)
  have split: "[0..<100] = [0..<85] @ [85..<100]"
    using upt_add_eq_append [of 0 85 15] by simp
  have low: "\<And>ante. filter (\<lambda>n. getRandomSymbol ante (percent n) = 9) [0..<85] = []"
    by (auto simp: filter_empty_conv scatter_iff percent.rep_eq)
  have top: "filter (\<lambda>n. getRandomSymbol True (percent n) = 9) [85..<100] = [85..<95]"
    "filter (\<lambda>n. getRandomSymbol False (percent n) = 9) [85..<100] = [85..<92]"
    by (simp_all add: getRandomSymbol_def percent.rep_eq)
  have ct: "scatterDraws True = 10"
    unfolding scatterDraws_def split filter_append low top by simp
  have cf: "scatterDraws False = 7"
    unfolding scatterDraws_def split filter_append low top by simp
  show ?thesis
    using t f ct cf by (simp add: SCATTER_CHANCE_MULTIPLIER_def)
qed


end
